theory Spec2Isabelle
  imports Complex_Main "HOL-Library.AList"
begin

section \<open>JavaScript values used by the poller\<close>

text \<open>
  A JavaScript \<^verbatim>\<open>Error\<close> object is kept by its name and its message. A thrown value is
  either an \<^verbatim>\<open>Error\<close> or some other value, kept by what \<^verbatim>\<open>String(v)\<close> gives for it.
  JavaScript numbers are modelled exactly: clock readings and HTTP status codes are
  integers, interval arithmetic is done in the reals.
\<close>

datatype Error = Error (name: string) (message: string)

datatype thrown = ThrownError Error | ThrownValue string

text \<open>\<^verbatim>\<open>error instanceof Error ? error : new Error(String(error))\<close>\<close>

definition toError :: "thrown \<Rightarrow> Error" where
  "toError x = (case x of ThrownError err \<Rightarrow> err | ThrownValue s \<Rightarrow> Error ''Error'' s)"

text \<open>The decimal text that a template literal gives for an integer.\<close>

definition digit :: "nat \<Rightarrow> char" where
  "digit d = char_of (48 + d)"

fun decimal :: "nat \<Rightarrow> string" where
  "decimal n = (if n < 10 then [digit n] else decimal (n div 10) @ [digit (n mod 10)])"

declare decimal.simps [simp del]

definition String_of :: "int \<Rightarrow> string" where
  "String_of i = (if i < 0 then CHR ''-'' # decimal (nat (- i)) else decimal (nat i))"

section \<open>Constants of task-async.ts and constants.ts\<close>

definition POLLING_TIMEOUT_MS :: int where
  "POLLING_TIMEOUT_MS = 1000 * 60 * 5"

definition FAST_POLLING_DURATION_MS :: int where
  "FAST_POLLING_DURATION_MS = 12000"

definition FAST_POLLING_INTERVAL_MS :: int where
  "FAST_POLLING_INTERVAL_MS = 2500"

definition SLOW_POLLING_INTERVAL_MS :: int where
  "SLOW_POLLING_INTERVAL_MS = 5000"

definition MAX_RETRY_COUNT :: nat where
  "MAX_RETRY_COUNT = 7"

definition TASK_PATH :: string where
  "TASK_PATH = ''/tasks''"

definition TASK_DETAILS_PATH :: "string \<Rightarrow> string" where
  "TASK_DETAILS_PATH i = TASK_PATH @ ''/'' @ i"

definition TASK_STATUS_PATH :: "string \<Rightarrow> string" where
  "TASK_STATUS_PATH i = TASK_PATH @ ''/'' @ i @ ''/status''"

section \<open>Task data and the completed task\<close>

datatype TaskStatus = pending | completed | failed

text \<open>
  \<^verbatim>\<open>MynthSDKTypes.TaskData\<close>. The fields \<^verbatim>\<open>id\<close>, \<^verbatim>\<open>status\<close> and \<^verbatim>\<open>type\<close> carry a
  prefix here; the result and the request are opaque to the poller and kept as text.
\<close>

record TaskData =
  data_id :: string
  data_status :: TaskStatus
  data_type :: string
  apiKeyId :: "string option"
  userId :: string
  cost :: "string option"
  result :: "string option"
  request :: "string option"
  createdAt :: string
  updatedAt :: string

text \<open>Class \<^verbatim>\<open>Task\<close>: the constructor stores the data, the getter \<^verbatim>\<open>id\<close> reads \<^verbatim>\<open>data.id\<close>.\<close>

datatype Task = Task (raw_data: TaskData)

definition Task_id :: "Task \<Rightarrow> string" where
  "Task_id t = data_id (raw_data t)"

text \<open>The body of the status endpoint, \<^verbatim>\<open>{ status: TaskStatus }\<close>.\<close>

datatype status_body = StatusBody (lifecycle: TaskStatus)

section \<open>The error classes\<close>

text \<open>
  One constructor per error class of task-async.ts, with the arguments of its
  constructor call. \<open>Uncaught\<close> is an exception of the transport that leaves
  \<^verbatim>\<open>fetchTask\<close> as it is.
\<close>

datatype error =
    TaskAsyncTimeoutError string
  | TaskAsyncUnauthorizedError string
  | TaskAsyncFetchError string "Error option"
  | TaskAsyncTaskFetchError string "int option"
  | TaskAsyncTaskFailedError string
  | Uncaught thrown

text \<open>
  The \<^verbatim>\<open>name\<close> of the value that a failed resolution rejects with: the class name that
  the constructor of each error class sets, the own name of an \<^verbatim>\<open>Error\<close> thrown by the
  transport, and none for a thrown value that is no \<^verbatim>\<open>Error\<close>.
\<close>

fun error_name :: "error \<Rightarrow> string option" where
  "error_name (TaskAsyncTimeoutError _) = Some ''TaskAsyncTimeoutError''"
| "error_name (TaskAsyncUnauthorizedError _) = Some ''TaskAsyncUnauthorizedError''"
| "error_name (TaskAsyncFetchError _ _) = Some ''TaskAsyncFetchError''"
| "error_name (TaskAsyncTaskFetchError _ _) = Some ''TaskAsyncTaskFetchError''"
| "error_name (TaskAsyncTaskFailedError _) = Some ''TaskAsyncTaskFailedError''"
| "error_name (Uncaught (ThrownError err)) = Some (name err)"
| "error_name (Uncaught (ThrownValue _)) = None"

fun error_message :: "error \<Rightarrow> string" where
  "error_message (TaskAsyncTimeoutError taskId) =
     ''Task '' @ taskId @ '' polling timed out after '' @ String_of POLLING_TIMEOUT_MS @ ''ms''"
| "error_message (TaskAsyncUnauthorizedError taskId) =
     ''Unauthorized access to task '' @ taskId"
| "error_message (TaskAsyncFetchError taskId _) =
     ''Failed to fetch status for task '' @ taskId @ '' after multiple retries''"
| "error_message (TaskAsyncTaskFetchError taskId st) =
     (let suffix = (case st of
                      None \<Rightarrow> ''''
                    | Some s \<Rightarrow> if s \<noteq> 0 then '' (status '' @ String_of s @ '')'' else '''')
      in ''Failed to fetch task '' @ taskId @ suffix)"
| "error_message (TaskAsyncTaskFailedError taskId) =
     ''Task '' @ taskId @ '' failed during generation''"
| "error_message (Uncaught x) = message (toError x)"


section \<open>The HTTP client\<close>

record MynthClient =
  apiKey :: string
  baseUrl :: string

record http_request =
  url :: string
  headers :: "(string \<times> string) list"

text \<open>\<^verbatim>\<open>Authorization: `Bearer ${override?.accessToken ?? this.apiKey}`\<close>\<close>

definition getAuthHeaders :: "MynthClient \<Rightarrow> string option \<Rightarrow> (string \<times> string) list" where
  "getAuthHeaders c accessToken =
     [(''Authorization'', ''Bearer '' @ (case accessToken of Some t \<Rightarrow> t | None \<Rightarrow> apiKey c))]"

definition getUrl :: "MynthClient \<Rightarrow> string \<Rightarrow> string" where
  "getUrl c path = baseUrl c @ path"

text \<open>
  What the platform's \<^verbatim>\<open>fetch\<close> gives: the call rejects, or it resolves to a response
  with its \<^verbatim>\<open>ok\<close> flag, its status and the outcome of \<^verbatim>\<open>response.json()\<close>, which throws
  or gives the body at the type the caller reads it at.
\<close>

datatype 'd fetched =
    Rejected thrown
  | Response bool int "thrown + 'd"

record 'd get_response =
  data :: 'd
  status :: int
  ok :: bool

section \<open>The world outside the poller\<close>

text \<open>
  The poller reads the clock, calls the network, draws random numbers and sets timers.
  The world keeps the clock reading (\<^verbatim>\<open>Date.now()\<close>, in milliseconds), the number of
  network calls, random draws and timers so far, and a record of what was done, newest
  first. The record is observation only: nothing the poller computes depends on it.
\<close>

datatype event =
    PollStarted string
  | Fetched http_request
  | Slept real

record world =
  now :: int
  fetches :: nat
  randoms :: nat
  timers :: nat
  events :: "event list"

text \<open>
  The environment fixes how the world answers: what the \<open>n\<close>-th network call returns
  for the request it carries, how many milliseconds it takes, what the \<open>k\<close>-th call of
  \<^verbatim>\<open>Math.random()\<close> returns, and how many milliseconds pass on the clock until the
  \<open>k\<close>-th timer, set for the given delay, fires. The clock never runs backwards.
\<close>

record env =
  serve_status :: "nat \<Rightarrow> http_request \<Rightarrow> status_body fetched"
  serve_task :: "nat \<Rightarrow> http_request \<Rightarrow> TaskData fetched"
  fetch_ms :: "nat \<Rightarrow> nat"
  random :: "nat \<Rightarrow> real"
  timer_ms :: "nat \<Rightarrow> real \<Rightarrow> nat"

text \<open>
  \<^verbatim>\<open>MynthClient.get\<close>: the request carries the authorization header, overridden by the
  caller's headers; an exception of \<^verbatim>\<open>fetch\<close> or of \<^verbatim>\<open>response.json()\<close> leaves the call.
\<close>

definition get ::
  "(nat \<Rightarrow> http_request \<Rightarrow> 'd fetched) \<Rightarrow> (nat \<Rightarrow> nat) \<Rightarrow> MynthClient \<Rightarrow> string \<Rightarrow>
   (string \<times> string) list \<Rightarrow> string option \<Rightarrow> world \<Rightarrow> (thrown + 'd get_response) \<times> world" where
  "get serve ms c path hdrs accessToken w =
     (let req = \<lparr>url = getUrl c path, headers = AList.merge (getAuthHeaders c accessToken) hdrs\<rparr>;
          w' = w\<lparr>now := now w + int (ms (fetches w)),
                 fetches := Suc (fetches w),
                 events := Fetched req # events w\<rparr>
      in case serve (fetches w) req of
           Rejected x \<Rightarrow> (Inl x, w')
         | Response k s body \<Rightarrow>
             (case body of
                Inl x \<Rightarrow> (Inl x, w')
              | Inr d \<Rightarrow> (Inr \<lparr>data = d, status = s, ok = k\<rparr>, w')))"

section \<open>The task handle\<close>

record TaskAsyncAccess =
  publicAccessToken :: "string option"

text \<open>
  \<^verbatim>\<open>_completionPromise\<close> is \<open>None\<close> for \<^verbatim>\<open>null\<close>, and otherwise names the promise that
  the call of \<^verbatim>\<open>pollUntilCompleted\<close> handed back; promises are numbered in the order in
  which they were made.
\<close>

record TaskAsync =
  id' :: string
  client :: MynthClient
  access :: TaskAsyncAccess
  completionPromise :: "nat option"

text \<open>The constructor \<^verbatim>\<open>new TaskAsync(id, { client, pat })\<close>.\<close>

definition new_TaskAsync :: "string \<Rightarrow> MynthClient \<Rightarrow> string option \<Rightarrow> TaskAsync" where
  "new_TaskAsync i c pat =
     \<lparr>id' = i, client = c, access = \<lparr>publicAccessToken = pat\<rparr>, completionPromise = None\<rparr>"

text \<open>Truthiness of an optional string: \<^verbatim>\<open>undefined\<close> and the empty string are falsy.\<close>

definition truthy :: "string option \<Rightarrow> bool" where
  "truthy s = (case s of None \<Rightarrow> False | Some t \<Rightarrow> t \<noteq> [])"

datatype FetchStatusResult =
    OkTrue TaskStatus
  | OkFalse (unauthorized: bool) (retryable: bool) (error: "Error option")

definition fetchStatus :: "env \<Rightarrow> TaskAsync \<Rightarrow> bool \<Rightarrow> world \<Rightarrow> FetchStatusResult \<times> world" where
  "fetchStatus e h useApiKey w =
     (let accessToken =
            (if useApiKey \<or> \<not> truthy (publicAccessToken (access h)) then None
             else publicAccessToken (access h))
      in case get (serve_status e) (fetch_ms e) (client h) (TASK_STATUS_PATH (id' h)) []
                accessToken w of
           (Inr response, w') \<Rightarrow>
             (if ok response then (OkTrue (lifecycle (data response)), w')
              else if status response = 401 \<or> status response = 403
                then (OkFalse True False None, w')
              else if status response = 404 then (OkFalse True False None, w')
              else if status response \<ge> 500 then (OkFalse False True None, w')
              else (OkFalse False False None, w'))
         | (Inl x, w') \<Rightarrow> (OkFalse False True (Some (toError x)), w'))"

definition fetchTask :: "env \<Rightarrow> TaskAsync \<Rightarrow> world \<Rightarrow> (error + TaskData) \<times> world" where
  "fetchTask e h w =
     (case get (serve_task e) (fetch_ms e) (client h) (TASK_DETAILS_PATH (id' h)) [] None w of
        (Inl x, w') \<Rightarrow> (Inl (Uncaught x), w')
      | (Inr response, w') \<Rightarrow>
          (if ok response then (Inr (data response), w')
           else if status response = 401 \<or> status response = 403
             then (Inl (TaskAsyncUnauthorizedError (id' h)), w')
           else if status response = 404 then (Inl (TaskAsyncUnauthorizedError (id' h)), w')
           else (Inl (TaskAsyncTaskFetchError (id' h) (Some (status response))), w')))"

text \<open>\<^verbatim>\<open>sleep(ms)\<close>: a timer is set and the caller waits until it fires.\<close>

definition sleep :: "env \<Rightarrow> real \<Rightarrow> world \<Rightarrow> world" where
  "sleep e ms w =
     w\<lparr>now := now w + int (timer_ms e (timers w) ms),
       timers := Suc (timers w),
       events := Slept ms # events w\<rparr>"

section \<open>The polling loop\<close>

text \<open>The local variables of \<^verbatim>\<open>pollUntilCompleted\<close>.\<close>

record locals =
  startTime :: int
  retryCount :: nat
  useApiKeyFallback :: bool
  lastError :: "Error option"

text \<open>
  One pass through the body of \<^verbatim>\<open>while (true)\<close> either leaves the function, with a
  returned task or a thrown error, or goes on to the next pass.
\<close>

datatype step =
    Done "error + Task" locals world
  | Continue locals world

text \<open>
  The end of the loop body, reached by every path that neither leaves the function nor
  hits \<^verbatim>\<open>continue\<close>: the interval with its jitter, cut at the remaining time, then the
  sleep.
\<close>

definition waitForNextPoll :: "env \<Rightarrow> locals \<Rightarrow> int \<Rightarrow> world \<Rightarrow> step" where
  "waitForNextPoll e l elapsed w =
     (let isInFastPhase = elapsed < FAST_POLLING_DURATION_MS;
          baseInterval = (if isInFastPhase then FAST_POLLING_INTERVAL_MS
                          else SLOW_POLLING_INTERVAL_MS);
          jitter = random e (randoms w) * 500;
          w1 = w\<lparr>randoms := Suc (randoms w)\<rparr>;
          interval = real_of_int baseInterval + jitter;
          remainingTime = POLLING_TIMEOUT_MS - elapsed;
          waitTime = min interval (real_of_int remainingTime)
      in Continue l (sleep e waitTime w1))"

definition iteration :: "env \<Rightarrow> TaskAsync \<Rightarrow> locals \<Rightarrow> world \<Rightarrow> step" where
  "iteration e h l w =
     (let elapsed = now w - startTime l
      in if elapsed \<ge> POLLING_TIMEOUT_MS
         then Done (Inl (TaskAsyncTimeoutError (id' h))) l w
         else
           (case fetchStatus e h (useApiKeyFallback l) w of
              (OkTrue st, w1) \<Rightarrow>
                (let l1 = l\<lparr>retryCount := 0\<rparr>
                 in if st = completed then
                      (case fetchTask e h w1 of
                         (Inl err, w2) \<Rightarrow> Done (Inl err) l1 w2
                       | (Inr taskData, w2) \<Rightarrow> Done (Inr (Task taskData)) l1 w2)
                    else if st = failed then
                      Done (Inl (TaskAsyncTaskFailedError (id' h))) l1 w1
                    else waitForNextPoll e l1 elapsed w1)
            | (OkFalse unauth retry err, w1) \<Rightarrow>
                if unauth then
                  (if truthy (publicAccessToken (access h)) \<and> \<not> useApiKeyFallback l
                   then Continue (l\<lparr>useApiKeyFallback := True\<rparr>) w1
                   else Done (Inl (TaskAsyncUnauthorizedError (id' h))) l w1)
                else if retry then
                  (let l1 = l\<lparr>retryCount := retryCount l + 1, lastError := err\<rparr>
                   in if retryCount l1 \<ge> MAX_RETRY_COUNT
                      then Done (Inl (TaskAsyncFetchError (id' h) (lastError l1))) l1 w1
                      else waitForNextPoll e l1 elapsed w1)
                else waitForNextPoll e l elapsed w1))"

text \<open>
  The loop has no bound of its own: whether it ends depends on the clock. A run that
  never leaves the loop has the value \<open>None\<close>.
\<close>

partial_function (option) pollLoop ::
  "env \<Rightarrow> TaskAsync \<Rightarrow> locals \<Rightarrow> world \<Rightarrow> ((error + Task) \<times> locals \<times> world) option" where
  "pollLoop e h l w =
     (case iteration e h l w of
        Done r l' w' \<Rightarrow> Some (r, l', w')
      | Continue l' w' \<Rightarrow> pollLoop e h l' w')"

text \<open>
  \<^verbatim>\<open>pollUntilCompleted\<close>: the clock is read into \<^verbatim>\<open>startTime\<close>, the counter and the flag
  are initialised, and the loop is entered. The world records that the routine started.
\<close>

definition initial_locals :: "world \<Rightarrow> locals" where
  "initial_locals w =
     \<lparr>startTime = now w, retryCount = 0, useApiKeyFallback = False, lastError = None\<rparr>"

definition entered :: "TaskAsync \<Rightarrow> world \<Rightarrow> world" where
  "entered h w = w\<lparr>events := PollStarted (id' h) # events w\<rparr>"

definition pollUntilCompleted ::
  "env \<Rightarrow> TaskAsync \<Rightarrow> world \<Rightarrow> ((error + Task) \<times> world) option" where
  "pollUntilCompleted e h w =
     map_option (\<lambda>(r, l, w'). (r, w')) (pollLoop e h (initial_locals w) (entered h w))"

section \<open>Promises: starting the polling and requesting the resolution\<close>

text \<open>
  \<^verbatim>\<open>pollUntilCompleted\<close> is an async function: a call hands back a pending promise at
  once, and the loop then runs as the event loop gets to it, one pass after the other,
  until a pass settles the promise. \<open>pollUntilCompleted\<close> above is the value the promise
  settles to. The runtime keeps the world and, for every call made so far, the promise
  it handed back: still running, with the local variables of its loop, or settled.
\<close>

datatype poll = Running locals | Finished "error + Task"

record runtime =
  rt_world :: world
  polls :: "poll list"

text \<open>The call \<^verbatim>\<open>this.pollUntilCompleted()\<close>: a new promise, whose loop is about to start.\<close>

definition call_pollUntilCompleted :: "TaskAsync \<Rightarrow> runtime \<Rightarrow> nat \<times> runtime" where
  "call_pollUntilCompleted h rt =
     (length (polls rt),
      rt\<lparr>rt_world := entered h (rt_world rt),
         polls := polls rt @ [Running (initial_locals (rt_world rt))]\<rparr>)"

text \<open>
  \<^verbatim>\<open>toTask\<close>: when no promise is stored, the polling is called and the promise it hands
  back is stored, before anything is awaited; the stored promise is returned. The
  promise object that an async function returns is a new one at every call and settles
  as the promise it was resolved with; the call is kept here by that promise.
\<close>

definition toTask :: "TaskAsync \<Rightarrow> runtime \<Rightarrow> nat \<times> TaskAsync \<times> runtime" where
  "toTask h rt =
     (case completionPromise h of
        None \<Rightarrow>
          (case call_pollUntilCompleted h rt of
             (p, rt') \<Rightarrow> (p, h\<lparr>completionPromise := Some p\<rparr>, rt'))
      | Some p \<Rightarrow> (p, h, rt))"

text \<open>
  The event loop lets the loop of the promise \<open>i\<close> make its next pass. A pass is taken
  as one step: a call of \<^verbatim>\<open>toTask\<close> reads and writes \<^verbatim>\<open>_completionPromise\<close> only, which
  no pass touches, so that a call made in the middle of a pass, while a request or a
  timer is pending, does what it does right before or right after that pass.
\<close>

definition run_pass :: "env \<Rightarrow> TaskAsync \<Rightarrow> nat \<Rightarrow> runtime \<Rightarrow> runtime" where
  "run_pass e h i rt =
     (if i < length (polls rt) then
        (case polls rt ! i of
           Finished r \<Rightarrow> rt
         | Running l \<Rightarrow>
             (case iteration e h l (rt_world rt) of
                Done r l' w' \<Rightarrow> rt\<lparr>rt_world := w', polls := (polls rt)[i := Finished r]\<rparr>
              | Continue l' w' \<Rightarrow> rt\<lparr>rt_world := w', polls := (polls rt)[i := Running l']\<rparr>))
      else rt)"

text \<open>What awaiting the promise \<open>p\<close> gives, once it is settled.\<close>

definition settled :: "runtime \<Rightarrow> nat \<Rightarrow> (error + Task) option" where
  "settled rt p =
     (if p < length (polls rt) then
        (case polls rt ! p of Finished r \<Rightarrow> Some r | Running l \<Rightarrow> None)
      else None)"

text \<open>
  What happens around one handle, in any order: a caller calls \<^verbatim>\<open>toTask\<close>, or the event
  loop lets a polling loop make a pass. The promises that the calls returned are kept in
  the order of the calls.
\<close>

datatype action = CallToTask | RunPass nat

fun run :: "env \<Rightarrow> action list \<Rightarrow> TaskAsync \<times> runtime \<times> nat list \<Rightarrow> TaskAsync \<times> runtime \<times> nat list" where
  "run e [] s = s"
| "run e (CallToTask # acts) (h, rt, ps) =
     (case toTask h rt of (p, h', rt') \<Rightarrow> run e acts (h', rt', ps @ [p]))"
| "run e (RunPass i # acts) (h, rt, ps) = run e acts (h, run_pass e h i rt, ps)"

section \<open>Notions used to state the properties\<close>

text \<open>The requests that \<^verbatim>\<open>fetchStatus\<close> and \<^verbatim>\<open>fetchTask\<close> send, written out.\<close>

definition statusRequest :: "TaskAsync \<Rightarrow> bool \<Rightarrow> http_request" where
  "statusRequest h useApiKey =
     \<lparr>url = baseUrl (client h) @ ''/tasks/'' @ id' h @ ''/status'',
      headers = [(''Authorization'', ''Bearer '' @
         (if useApiKey \<or> \<not> truthy (publicAccessToken (access h)) then apiKey (client h)
          else the (publicAccessToken (access h))))]\<rparr>"

definition detailsRequest :: "TaskAsync \<Rightarrow> http_request" where
  "detailsRequest h =
     \<lparr>url = baseUrl (client h) @ ''/tasks/'' @ id' h,
      headers = [(''Authorization'', ''Bearer '' @ apiKey (client h))]\<rparr>"

text \<open>The world after one network call that carried the request \<open>req\<close>.\<close>

definition after_fetch :: "env \<Rightarrow> http_request \<Rightarrow> world \<Rightarrow> world" where
  "after_fetch e req w =
     w\<lparr>now := now w + int (fetch_ms e (fetches w)),
       fetches := Suc (fetches w),
       events := Fetched req # events w\<rparr>"

text \<open>What \<^verbatim>\<open>MynthClient.get\<close> makes of an answer of the transport.\<close>

definition reply_of :: "'d fetched \<Rightarrow> thrown + 'd get_response" where
  "reply_of a =
     (case a of
        Rejected x \<Rightarrow> Inl x
      | Response k s body \<Rightarrow>
          (case body of Inl x \<Rightarrow> Inl x | Inr d \<Rightarrow> Inr \<lparr>data = d, status = s, ok = k\<rparr>))"


text \<open>The branch of the loop body taken after a \<open>completed\<close> status.\<close>

definition finish_completed :: "env \<Rightarrow> TaskAsync \<Rightarrow> locals \<Rightarrow> world \<Rightarrow> step" where
  "finish_completed e h l w1 =
     (case fst (fetchTask e h w1) of
        Inl err \<Rightarrow> Done (Inl err) l (after_fetch e (detailsRequest h) w1)
      | Inr taskData \<Rightarrow> Done (Inr (Task taskData)) l (after_fetch e (detailsRequest h) w1))"

text \<open>The delay that \<^verbatim>\<open>waitForNextPoll\<close> hands to \<^verbatim>\<open>sleep\<close>.\<close>

definition waitTime :: "env \<Rightarrow> int \<Rightarrow> world \<Rightarrow> real" where
  "waitTime e elapsed w =
     min (real_of_int (if elapsed < FAST_POLLING_DURATION_MS then FAST_POLLING_INTERVAL_MS
                       else SLOW_POLLING_INTERVAL_MS) + random e (randoms w) * 500)
         (real_of_int (POLLING_TIMEOUT_MS - elapsed))"

fun step_locals :: "step \<Rightarrow> locals" where
  "step_locals (Done _ l _) = l"
| "step_locals (Continue l _) = l"

fun step_world :: "step \<Rightarrow> world" where
  "step_world (Done _ _ w) = w"
| "step_world (Continue _ w) = w"

text \<open>
  \<open>reaches e h l w l' w'\<close>: the loop, started with locals \<open>l\<close> in world \<open>w\<close>, is at the
  head of its body with locals \<open>l'\<close> in world \<open>w'\<close> after some number of passes.
\<close>

inductive reaches :: "env \<Rightarrow> TaskAsync \<Rightarrow> locals \<Rightarrow> world \<Rightarrow> locals \<Rightarrow> world \<Rightarrow> bool"
  for e :: env and h :: TaskAsync where
  here: "reaches e h l w l w"
| later: "iteration e h l w = Continue l1 w1 \<Longrightarrow> reaches e h l1 w1 l2 w2 \<Longrightarrow>
          reaches e h l w l2 w2"

text \<open>
  \<open>polls_at e h w0 l w\<close>: the resolution started in world \<open>w0\<close> comes to the head of
  the loop body with locals \<open>l\<close> in world \<open>w\<close> and the budget is not used up there, so
  that this pass issues a status check.
\<close>

definition polls_at :: "env \<Rightarrow> TaskAsync \<Rightarrow> world \<Rightarrow> locals \<Rightarrow> world \<Rightarrow> bool" where
  "polls_at e h w0 l w \<longleftrightarrow>
     reaches e h (initial_locals w0) (entered h w0) l w \<and>
     now w - startTime l < POLLING_TIMEOUT_MS"

text \<open>
  \<open>performs e h l w rs\<close>: from the head of the loop body with locals \<open>l\<close> in world
  \<open>w\<close>, the next status checks return the results \<open>rs\<close>, in this order.
\<close>

inductive performs :: "env \<Rightarrow> TaskAsync \<Rightarrow> locals \<Rightarrow> world \<Rightarrow> FetchStatusResult list \<Rightarrow> bool"
  for e :: env and h :: TaskAsync where
  none: "performs e h l w []"
| final: "now w - startTime l < POLLING_TIMEOUT_MS \<Longrightarrow> iteration e h l w = Done r l' w' \<Longrightarrow>
          performs e h l w [fst (fetchStatus e h (useApiKeyFallback l) w)]"
| more: "now w - startTime l < POLLING_TIMEOUT_MS \<Longrightarrow> iteration e h l w = Continue l' w' \<Longrightarrow>
         performs e h l' w' rs \<Longrightarrow>
         performs e h l w (fst (fetchStatus e h (useApiKeyFallback l) w) # rs)"

fun is_success :: "FetchStatusResult \<Rightarrow> bool" where
  "is_success (OkTrue _) = True"
| "is_success (OkFalse _ _ _) = False"

fun is_retryable :: "FetchStatusResult \<Rightarrow> bool" where
  "is_retryable (OkTrue _) = False"
| "is_retryable (OkFalse _ retry _) = retry"

fun is_unauthorized :: "FetchStatusResult \<Rightarrow> bool" where
  "is_unauthorized (OkTrue _) = False"
| "is_unauthorized (OkFalse unauth _ _) = unauth"


text \<open>
  An answer of the transport that is a transient failure: the call or the reading of
  the body threw, or the response is not ok with a status of 500 or more.
\<close>

fun transient :: "'d fetched \<Rightarrow> bool" where
  "transient (Rejected _) = True"
| "transient (Response _ _ (Inl _)) = True"
| "transient (Response k s (Inr _)) = (\<not> k \<and> 500 \<le> s)"

text \<open>
  The events of a resolution after its start: sleeps, and requests for the status or
  the details of the handle's task.
\<close>

fun poll_event :: "TaskAsync \<Rightarrow> event \<Rightarrow> bool" where
  "poll_event h (PollStarted _) = False"
| "poll_event h (Fetched r) =
     (r = statusRequest h False \<or> r = statusRequest h True \<or> r = detailsRequest h)"
| "poll_event h (Slept _) = True"

text \<open>
  \<open>one_polling e h0 w0 s\<close>: the state \<open>s\<close> of a handle that was \<open>h0\<close> when it was made, in
  world \<open>w0\<close>, is that of at most one polling. Either no promise is stored, no call has
  returned and nothing has happened; or the stored promise is the first one, every call
  has returned it, and it is the only promise made: still running at a point that the
  resolution started in \<open>w0\<close> reaches, or settled as that resolution ends, in the world
  in which it ends.
\<close>

definition one_polling :: "env \<Rightarrow> TaskAsync \<Rightarrow> world \<Rightarrow> TaskAsync \<times> runtime \<times> nat list \<Rightarrow> bool" where
  "one_polling e h0 w0 s =
     (case s of (h, rt, ps) \<Rightarrow>
        h = h0\<lparr>completionPromise := completionPromise h\<rparr> \<and>
        (case completionPromise h of
           None \<Rightarrow> ps = [] \<and> rt = \<lparr>rt_world = w0, polls = []\<rparr>
         | Some p \<Rightarrow>
             p = 0 \<and> ps \<noteq> [] \<and> set ps \<subseteq> {0} \<and>
             (\<exists>st. polls rt = [st] \<and>
                (case st of
                   Running l \<Rightarrow> reaches e h0 (initial_locals w0) (entered h0 w0) l (rt_world rt)
                 | Finished r \<Rightarrow> pollUntilCompleted e h0 w0 = Some (r, rt_world rt)))))"

text \<open>
  \<open>on_script w0 l w\<close>: in a resolution started in world \<open>w0\<close>, at most eleven status
  checks have been made, and the failure counter is at most the number of checks made
  so far, or made after the sixth once there were six.
\<close>

definition on_script :: "world \<Rightarrow> locals \<Rightarrow> world \<Rightarrow> bool" where
  "on_script w0 l w \<longleftrightarrow>
     fetches w0 \<le> fetches w \<and> fetches w \<le> fetches w0 + 11
     \<and> (fetches w \<le> fetches w0 + 5 \<longrightarrow> retryCount l + fetches w0 \<le> fetches w)
     \<and> (fetches w0 + 6 \<le> fetches w \<longrightarrow> retryCount l + fetches w0 + 6 \<le> fetches w)"

section \<open>Example data\<close>

definition ex_client :: MynthClient where
  "ex_client = \<lparr>apiKey = ''mak_live'', baseUrl = ''https://api.mynth.io''\<rparr>"

definition ex_handle :: TaskAsync where
  "ex_handle = new_TaskAsync ''task_1'' ex_client None"

definition ex_handle_pat :: TaskAsync where
  "ex_handle_pat = new_TaskAsync ''task_1'' ex_client (Some ''pat_1'')"

definition ex_world :: world where
  "ex_world = \<lparr>now = 1000, fetches = 0, randoms = 0, timers = 0, events = []\<rparr>"

definition ex_data :: "string \<Rightarrow> TaskData" where
  "ex_data i = \<lparr>data_id = i, data_status = completed, data_type = ''image'',
     apiKeyId = Some ''api-key-123'', userId = ''user-123'', cost = Some ''0.01'',
     result = None, request = None, createdAt = ''2026-01-29T12:00:00Z'',
     updatedAt = ''2026-01-29T12:00:00Z''\<rparr>"

text \<open>
  An environment with given answers, in which a network call takes 40 ms, every random
  number is one half and every timer fires at the millisecond it was set for.
\<close>

definition scripted ::
  "(nat \<Rightarrow> http_request \<Rightarrow> status_body fetched) \<Rightarrow>
   (nat \<Rightarrow> http_request \<Rightarrow> TaskData fetched) \<Rightarrow> env" where
  "scripted ss st = \<lparr>serve_status = ss, serve_task = st, fetch_ms = (\<lambda>n. 40),
     random = (\<lambda>k. 1 / 2), timer_ms = (\<lambda>k ms. nat \<lceil>ms\<rceil>)\<rparr>"

definition env_completed :: env where
  "env_completed = scripted (\<lambda>n r. Response True 200 (Inr (StatusBody completed)))
                         (\<lambda>n r. Response True 200 (Inr (ex_data ''task_1'')))"

definition env_failed :: env where
  "env_failed = scripted (\<lambda>n r. Response True 200 (Inr (StatusBody failed)))
                         (\<lambda>n r. Response True 200 (Inr (ex_data ''task_1'')))"

definition env_fetch_denied :: env where
  "env_fetch_denied = scripted (\<lambda>n r. Response True 200 (Inr (StatusBody completed)))
                         (\<lambda>n r. Response False 404 (Inr (ex_data ''task_1'')))"

definition env_fetch_broken :: env where
  "env_fetch_broken = scripted (\<lambda>n r. Response True 200 (Inr (StatusBody completed)))
                         (\<lambda>n r. Response False 500 (Inr (ex_data ''task_1'')))"

definition env_denied :: env where
  "env_denied = scripted
     (\<lambda>n r. Response False 403 (Inr (StatusBody pending)))
     (\<lambda>n r. Response True 200 (Inr (ex_data ''task_1'')))"

definition env_key_only :: env where
  "env_key_only = scripted
     (\<lambda>n r. if headers r = [(''Authorization'', ''Bearer mak_live'')]
             then Response True 200 (Inr (StatusBody completed))
             else Response False 401 (Inr (StatusBody pending)))
     (\<lambda>n r. Response True 200 (Inr (ex_data ''task_1'')))"

definition env_pat_only :: env where
  "env_pat_only = scripted
     (\<lambda>n r. if headers r = [(''Authorization'', ''Bearer pat_1'')]
             then Response True 200 (Inr (StatusBody completed))
             else Response False 401 (Inr (StatusBody pending)))
     (\<lambda>n r. if headers r = [(''Authorization'', ''Bearer mak_live'')]
             then Response False 401 (Inr (ex_data ''task_1''))
             else Response True 200 (Inr (ex_data ''task_1'')))"

definition env_bad_request :: env where
  "env_bad_request = scripted
     (\<lambda>n r. Response False 400 (Inr (StatusBody pending)))
     (\<lambda>n r. Response True 200 (Inr (ex_data ''task_1'')))"

definition env_other_record :: env where
  "env_other_record = scripted
     (\<lambda>n r. Response True 200 (Inr (StatusBody completed)))
     (\<lambda>n r. Response True 200 (Inr (ex_data ''test-task-id'')))"


definition env_flaky :: env where
  "env_flaky = scripted
     (\<lambda>n r. if n = 5 then Response True 200 (Inr (StatusBody pending))
             else if n = 11 then Response True 200 (Inr (StatusBody completed))
             else Response False 500 (Inr (StatusBody pending)))
     (\<lambda>n r. Response True 200 (Inr (ex_data ''task_1'')))"

definition env_always_pending :: env where
  "env_always_pending = scripted
     (\<lambda>n r. Response True 200 (Inr (StatusBody pending)))
     (\<lambda>n r. Response True 200 (Inr (ex_data ''task_1'')))"

definition env_suspended :: env where
  "env_suspended = (env_always_pending :: env)
     \<lparr>timer_ms := (\<lambda>k ms. if k = 0 then 299000 else nat \<lceil>ms\<rceil>)\<rparr>"

definition suspended_locals :: locals where
  "suspended_locals =
     \<lparr>startTime = 1000, retryCount = 0, useApiKeyFallback = False, lastError = None\<rparr>"

definition suspended_world1 :: world where
  "suspended_world1 =
     \<lparr>now = 300040, fetches = 1, randoms = 1, timers = 1,
      events = [Slept 2750,
                Fetched \<lparr>url = ''https://api.mynth.io/tasks/task_1/status'',
                         headers = [(''Authorization'', ''Bearer mak_live'')]\<rparr>,
                PollStarted ''task_1'']\<rparr>"

definition suspended_world2 :: world where
  "suspended_world2 =
     \<lparr>now = 301040, fetches = 2, randoms = 2, timers = 2,
      events = [Slept 960,
                Fetched \<lparr>url = ''https://api.mynth.io/tasks/task_1/status'',
                         headers = [(''Authorization'', ''Bearer mak_live'')]\<rparr>,
                Slept 2750,
                Fetched \<lparr>url = ''https://api.mynth.io/tasks/task_1/status'',
                         headers = [(''Authorization'', ''Bearer mak_live'')]\<rparr>,
                PollStarted ''task_1'']\<rparr>"

declare pollLoop.simps [code]

section \<open>Requests and results of the two fetches\<close>

lemma merge_nil: "AList.merge xs [] = xs"
  by (simp add: AList.merge_def)

lemma get_eq:
  "get serve ms c path hdrs tok w =
     (reply_of (serve (fetches w)
        \<lparr>url = getUrl c path, headers = AList.merge (getAuthHeaders c tok) hdrs\<rparr>),
      w\<lparr>now := now w + int (ms (fetches w)), fetches := Suc (fetches w),
        events := Fetched \<lparr>url = getUrl c path,
                           headers = AList.merge (getAuthHeaders c tok) hdrs\<rparr> # events w\<rparr>)"
  by (simp add: get_def reply_of_def Let_def split: fetched.splits sum.splits)

lemma status_request_eq:
  "\<lparr>url = getUrl (client h) (TASK_STATUS_PATH (id' h)),
    headers = AList.merge (getAuthHeaders (client h)
      (if b \<or> \<not> truthy (publicAccessToken (access h)) then None
       else publicAccessToken (access h))) []\<rparr> = statusRequest h b"
  by (auto simp add: statusRequest_def getUrl_def getAuthHeaders_def TASK_STATUS_PATH_def
      TASK_PATH_def truthy_def merge_nil split: option.splits)

lemma details_request_eq:
  "\<lparr>url = getUrl (client h) (TASK_DETAILS_PATH (id' h)),
    headers = AList.merge (getAuthHeaders (client h) None) []\<rparr> = detailsRequest h"
  by (simp add: detailsRequest_def getUrl_def getAuthHeaders_def TASK_DETAILS_PATH_def
      TASK_PATH_def merge_nil)

text \<open>What \<^verbatim>\<open>fetchStatus\<close> makes of each answer of the transport.\<close>

lemma fetchStatus_served:
  "fst (fetchStatus e h b w) =
     (case serve_status e (fetches w) (statusRequest h b) of
        Rejected x \<Rightarrow> OkFalse False True (Some (toError x))
      | Response k s body \<Rightarrow>
          (case body of
             Inl x \<Rightarrow> OkFalse False True (Some (toError x))
           | Inr d \<Rightarrow>
               if k then OkTrue (lifecycle d)
               else if s = 401 \<or> s = 403 \<or> s = 404 then OkFalse True False None
               else if 500 \<le> s then OkFalse False True None
               else OkFalse False False None))"
  unfolding fetchStatus_def Let_def get_eq status_request_eq
  by (simp add: reply_of_def split: fetched.splits sum.splits)

text \<open>What \<^verbatim>\<open>fetchTask\<close> makes of each answer of the transport.\<close>

lemma fetchTask_served:
  "fst (fetchTask e h w) =
     (case serve_task e (fetches w) (detailsRequest h) of
        Rejected x \<Rightarrow> Inl (Uncaught x)
      | Response k s body \<Rightarrow>
          (case body of
             Inl x \<Rightarrow> Inl (Uncaught x)
           | Inr d \<Rightarrow>
               if k then Inr d
               else if s = 401 \<or> s = 403 \<or> s = 404 then Inl (TaskAsyncUnauthorizedError (id' h))
               else Inl (TaskAsyncTaskFetchError (id' h) (Some s))))"
  unfolding fetchTask_def get_eq details_request_eq
  by (simp add: reply_of_def split: fetched.splits sum.splits)


lemma snd_fetchStatus:
  "snd (fetchStatus e h b w) = after_fetch e (statusRequest h b) w"
  unfolding fetchStatus_def Let_def get_eq status_request_eq
  by (simp add: after_fetch_def split: sum.splits)

lemma snd_fetchTask:
  "snd (fetchTask e h w) = after_fetch e (detailsRequest h) w"
  unfolding fetchTask_def get_eq details_request_eq
  by (simp add: after_fetch_def split: sum.splits)

lemma fetchStatus_pair:
  "fetchStatus e h b w = (fst (fetchStatus e h b w), after_fetch e (statusRequest h b) w)"
  by (metis prod.collapse snd_fetchStatus)

lemma fetchTask_pair:
  "fetchTask e h w = (fst (fetchTask e h w), after_fetch e (detailsRequest h) w)"
  by (metis prod.collapse snd_fetchTask)

lemma fetchStatus_never_both:
  "fst (fetchStatus e h b w) \<noteq> OkFalse True True err"
  by (simp add: fetchStatus_served split: fetched.splits sum.splits)

lemma transient_iff:
  "is_retryable (fst (fetchStatus e h b w)) \<longleftrightarrow>
   transient (serve_status e (fetches w) (statusRequest h b))"
  by (cases "serve_status e (fetches w) (statusRequest h b)")
     (auto simp add: fetchStatus_served split: sum.splits)

lemma fetchTask_Inr:
  assumes "fst (fetchTask e h w) = Inr d"
  shows "\<exists>s. serve_task e (fetches w) (detailsRequest h) = Response True s (Inr d)"
  using assms
  by (auto simp add: fetchTask_served split: fetched.splits sum.splits if_splits)

lemma fetchStatus_OkTrue:
  assumes "fst (fetchStatus e h b w) = OkTrue st"
  shows "\<exists>s. serve_status e (fetches w) (statusRequest h b) = Response True s (Inr (StatusBody st))"
  using assms
  by (auto simp add: fetchStatus_served split: fetched.splits sum.splits if_splits)

lemma other_status_result:
  assumes "serve_status e (fetches w) (statusRequest h b) = Response False s (Inr body)"
    and "s \<noteq> 401" "s \<noteq> 403" "s \<noteq> 404" "s < 500"
  shows "fst (fetchStatus e h b w) = OkFalse False False None"
  using assms by (simp add: fetchStatus_served)

section \<open>The loop body, case by case\<close>

lemma iteration_unfold:
  "iteration e h l w =
     (if POLLING_TIMEOUT_MS \<le> now w - startTime l
      then Done (Inl (TaskAsyncTimeoutError (id' h))) l w
      else
        (case fst (fetchStatus e h (useApiKeyFallback l) w) of
           OkTrue st \<Rightarrow>
             (if st = completed
              then finish_completed e h (l\<lparr>retryCount := 0\<rparr>)
                     (after_fetch e (statusRequest h (useApiKeyFallback l)) w)
              else if st = failed
              then Done (Inl (TaskAsyncTaskFailedError (id' h))) (l\<lparr>retryCount := 0\<rparr>)
                     (after_fetch e (statusRequest h (useApiKeyFallback l)) w)
              else waitForNextPoll e (l\<lparr>retryCount := 0\<rparr>) (now w - startTime l)
                     (after_fetch e (statusRequest h (useApiKeyFallback l)) w))
         | OkFalse unauth retry err \<Rightarrow>
             if unauth then
               (if truthy (publicAccessToken (access h)) \<and> \<not> useApiKeyFallback l
                then Continue (l\<lparr>useApiKeyFallback := True\<rparr>)
                       (after_fetch e (statusRequest h (useApiKeyFallback l)) w)
                else Done (Inl (TaskAsyncUnauthorizedError (id' h))) l
                       (after_fetch e (statusRequest h (useApiKeyFallback l)) w))
             else if retry then
               (if MAX_RETRY_COUNT \<le> retryCount l + 1
                then Done (Inl (TaskAsyncFetchError (id' h) err))
                       (l\<lparr>retryCount := retryCount l + 1, lastError := err\<rparr>)
                       (after_fetch e (statusRequest h (useApiKeyFallback l)) w)
                else waitForNextPoll e (l\<lparr>retryCount := retryCount l + 1, lastError := err\<rparr>)
                       (now w - startTime l)
                       (after_fetch e (statusRequest h (useApiKeyFallback l)) w))
             else waitForNextPoll e l (now w - startTime l)
                    (after_fetch e (statusRequest h (useApiKeyFallback l)) w)))"
proof -
  have ft: "\<And>w1 l1. (case fetchTask e h w1 of
                         (Inl err, w2) \<Rightarrow> Done (Inl err) l1 w2
                       | (Inr taskData, w2) \<Rightarrow> Done (Inr (Task taskData)) l1 w2)
            = finish_completed e h l1 w1"
    by (subst fetchTask_pair) (simp add: finish_completed_def split: sum.splits)
  show ?thesis
    unfolding iteration_def Let_def ft
    by (subst fetchStatus_pair) (simp split: FetchStatusResult.splits)
qed

lemma waitForNextPoll_eq:
  "waitForNextPoll e l elapsed w =
     Continue l (sleep e (waitTime e elapsed w) (w\<lparr>randoms := Suc (randoms w)\<rparr>))"
  by (simp add: waitForNextPoll_def waitTime_def Let_def)

lemma iteration_Continue_cases:
  assumes "iteration e h l w = Continue l' w'"
  shows "l' = l\<lparr>useApiKeyFallback := True\<rparr> \<or> l' = l\<lparr>retryCount := 0\<rparr> \<or> l' = l
         \<or> (\<exists>err. l' = l\<lparr>retryCount := retryCount l + 1, lastError := err\<rparr>
                   \<and> retryCount l + 1 < MAX_RETRY_COUNT)"
  using assms
  by (auto simp add: iteration_unfold waitForNextPoll_eq finish_completed_def
      split: if_splits FetchStatusResult.splits sum.splits)

lemma iteration_keeps_fallback:
  "iteration e h l w = Continue l' w' \<Longrightarrow> useApiKeyFallback l \<Longrightarrow> useApiKeyFallback l'"
  by (drule iteration_Continue_cases) auto


lemma iteration_Continue_world:
  assumes "iteration e h l w = Continue l' w'"
  shows "w' = after_fetch e (statusRequest h (useApiKeyFallback l)) w
         \<or> w' = sleep e (waitTime e (now w - startTime l)
                          (after_fetch e (statusRequest h (useApiKeyFallback l)) w))
                  ((after_fetch e (statusRequest h (useApiKeyFallback l)) w)
                     \<lparr>randoms := Suc (randoms (after_fetch e (statusRequest h (useApiKeyFallback l)) w))\<rparr>)"
  using assms
  by (auto simp add: iteration_unfold waitForNextPoll_eq finish_completed_def
      split: if_splits FetchStatusResult.splits sum.splits)

lemma iteration_Continue_events:
  assumes "iteration e h l w = Continue l' w'"
  shows "\<exists>new. events w' = new @ events w \<and> (\<forall>ev \<in> set new. poll_event h ev)"
proof -
  from iteration_Continue_world [OF assms]
  have "events w' = [Fetched (statusRequest h (useApiKeyFallback l))] @ events w
      \<or> (\<exists>d. events w' = [Slept d, Fetched (statusRequest h (useApiKeyFallback l))] @ events w)"
    by (auto simp add: after_fetch_def sleep_def)
  then show ?thesis
    by (cases "useApiKeyFallback l") fastforce+
qed

lemma iteration_Done_events:
  assumes "iteration e h l w = Done r l' w'"
  shows "\<exists>new. events w' = new @ events w \<and> (\<forall>ev \<in> set new. poll_event h ev)"
proof -
  from assms
  have "events w' = [] @ events w
      \<or> events w' = [Fetched (statusRequest h (useApiKeyFallback l))] @ events w
      \<or> events w' = [Fetched (detailsRequest h), Fetched (statusRequest h (useApiKeyFallback l))] @ events w"
    by (auto simp add: iteration_unfold waitForNextPoll_eq finish_completed_def after_fetch_def
        split: if_splits FetchStatusResult.splits sum.splits)
  then show ?thesis
    by (cases "useApiKeyFallback l") fastforce+
qed

lemma iteration_returns_task:
  assumes "iteration e h l w = Done (Inr t) l' w'"
  shows "now w - startTime l < POLLING_TIMEOUT_MS
         \<and> fst (fetchStatus e h (useApiKeyFallback l) w) = OkTrue completed
         \<and> fst (fetchTask e h (after_fetch e (statusRequest h (useApiKeyFallback l)) w))
             = Inr (raw_data t)
         \<and> w' = after_fetch e (detailsRequest h)
                  (after_fetch e (statusRequest h (useApiKeyFallback l)) w)"
  using assms
  by (auto simp add: iteration_unfold waitForNextPoll_eq finish_completed_def
      split: if_splits FetchStatusResult.splits sum.splits)

lemma success_resets:
  assumes "now w - startTime l < POLLING_TIMEOUT_MS"
    and "is_success (fst (fetchStatus e h (useApiKeyFallback l) w))"
  shows "retryCount (step_locals (iteration e h l w)) = 0"
proof (cases "fst (fetchStatus e h (useApiKeyFallback l) w)")
  case (OkTrue st)
  with assms(1) show ?thesis
    by (simp add: iteration_unfold waitForNextPoll_eq finish_completed_def split: sum.splits)
next
  case (OkFalse u rt err)
  with assms(2) show ?thesis by simp
qed

lemma pending_pass:
  assumes "now w - startTime l < POLLING_TIMEOUT_MS"
    and "serve_status e (fetches w) (statusRequest h (useApiKeyFallback l))
           = Response True s (Inr (StatusBody pending))"
  shows "\<exists>l' w'. iteration e h l w = Continue l' w' \<and> retryCount l' = 0
           \<and> startTime l' = startTime l \<and> useApiKeyFallback l' = useApiKeyFallback l"
  using assms by (simp add: iteration_unfold fetchStatus_served waitForNextPoll_eq)

lemma transient_pass:
  assumes "now w - startTime l < POLLING_TIMEOUT_MS"
    and "transient (serve_status e (fetches w) (statusRequest h (useApiKeyFallback l)))"
    and "Suc (retryCount l) < MAX_RETRY_COUNT"
  shows "\<exists>l' w'. iteration e h l w = Continue l' w' \<and> retryCount l' = Suc (retryCount l)
           \<and> startTime l' = startTime l \<and> useApiKeyFallback l' = useApiKeyFallback l"
proof (cases "fst (fetchStatus e h (useApiKeyFallback l) w)")
  case (OkTrue st)
  with assms(2) show ?thesis by (simp add: transient_iff [symmetric])
next
  case (OkFalse u rt err)
  with assms(2) fetchStatus_never_both [of e h "useApiKeyFallback l" w err]
  have "\<not> u" "rt" by (auto simp add: transient_iff [symmetric])
  with assms(1,3) OkFalse show ?thesis
    by (simp add: iteration_unfold waitForNextPoll_eq)
qed

lemma other_status_waits:
  assumes "now w - startTime l < POLLING_TIMEOUT_MS"
    and "fst (fetchStatus e h (useApiKeyFallback l) w) = OkFalse False False err"
  shows "iteration e h l w = waitForNextPoll e l (now w - startTime l)
              (after_fetch e (statusRequest h (useApiKeyFallback l)) w)"
  using assms by (simp add: iteration_unfold)

lemma not_success_Continue:
  assumes "now w - startTime l < POLLING_TIMEOUT_MS"
    and "iteration e h l w = Continue l' w'"
    and "\<not> is_success (fst (fetchStatus e h (useApiKeyFallback l) w))"
  shows "retryCount l' =
           retryCount l + (if is_retryable (fst (fetchStatus e h (useApiKeyFallback l) w)) then 1 else 0)"
proof (cases "fst (fetchStatus e h (useApiKeyFallback l) w)")
  case (OkTrue st)
  with assms(3) show ?thesis by simp
next
  case (OkFalse u rt err)
  with fetchStatus_never_both [of e h "useApiKeyFallback l" w err]
  have "\<not> (u \<and> rt)" by auto
  with assms(1,2) OkFalse show ?thesis
    by (auto simp add: iteration_unfold waitForNextPoll_eq split: if_splits)
qed


lemma iteration_Continue_fetches:
  "iteration e h l w = Continue l' w' \<Longrightarrow> fetches w' = Suc (fetches w)"
  by (drule iteration_Continue_world) (auto simp add: after_fetch_def sleep_def)

lemma iteration_Continue_open:
  "iteration e h l w = Continue l' w' \<Longrightarrow> now w - startTime l < POLLING_TIMEOUT_MS"
  by (cases "now w - startTime l < POLLING_TIMEOUT_MS") (simp_all add: iteration_unfold)

lemma completed_never_continues:
  assumes "serve_status e (fetches w) (statusRequest h (useApiKeyFallback l))
             = Response True s (Inr (StatusBody completed))"
  shows "iteration e h l w \<noteq> Continue l' w'"
  using assms
  by (simp add: iteration_unfold fetchStatus_served finish_completed_def split: sum.splits)

section \<open>The delay of a sleep\<close>

lemma waitTime_ge_1:
  assumes "0 \<le> random e (randoms w)" and "elapsed < POLLING_TIMEOUT_MS"
  shows "1 \<le> waitTime e elapsed w"
proof -
  have "1 \<le> POLLING_TIMEOUT_MS - elapsed" using assms(2) by simp
  then have a: "1 \<le> real_of_int (POLLING_TIMEOUT_MS - elapsed)" by linarith
  have "0 \<le> random e (randoms w) * 500" using assms(1) by simp
  then have b: "1 \<le> real_of_int (if elapsed < FAST_POLLING_DURATION_MS then FAST_POLLING_INTERVAL_MS
                       else SLOW_POLLING_INTERVAL_MS) + random e (randoms w) * 500"
    by (simp add: FAST_POLLING_INTERVAL_MS_def SLOW_POLLING_INTERVAL_MS_def)
  from a b show ?thesis by (simp add: waitTime_def)
qed

lemma waitTime_le:
  assumes "random e (randoms w) < 1"
  shows "waitTime e elapsed w \<le> 5500"
proof -
  have "real_of_int (if elapsed < FAST_POLLING_DURATION_MS then FAST_POLLING_INTERVAL_MS
                     else SLOW_POLLING_INTERVAL_MS) + random e (randoms w) * 500 \<le> 5500"
    using assms by (simp add: FAST_POLLING_INTERVAL_MS_def SLOW_POLLING_INTERVAL_MS_def)
  then show ?thesis by (simp add: waitTime_def min_le_iff_disj)
qed

lemma exact_timer_progress: "1 \<le> ms \<Longrightarrow> Suc 0 \<le> nat \<lceil>ms :: real\<rceil>"
  by linarith

lemma pass_progress:
  assumes F: "\<forall>n. fetch_ms e n \<le> 5000"
    and T: "\<forall>k ms. ms \<le> 5500 \<longrightarrow> timer_ms e k ms \<le> 20000"
    and R: "\<forall>k. random e k < 1"
    and it: "iteration e h l w = Continue l' w'"
  shows "now w' \<le> now w + 25000 \<and> fetches w' = Suc (fetches w)"
proof -
  let ?w1 = "after_fetch e (statusRequest h (useApiKeyFallback l)) w"
  from F have f: "int (fetch_ms e (fetches w)) \<le> 5000" by (simp add: of_nat_le_iff [symmetric] del: of_nat_le_iff)
  from R have "waitTime e (now w - startTime l) ?w1 \<le> 5500" by (intro waitTime_le) simp
  with T have "timer_ms e (timers ?w1) (waitTime e (now w - startTime l) ?w1) \<le> 20000" by blast
  then have t: "int (timer_ms e (timers ?w1) (waitTime e (now w - startTime l) ?w1)) \<le> 20000"
    by linarith
  from iteration_Continue_world [OF it] f t show ?thesis
    by (auto simp add: after_fetch_def sleep_def)
qed

section \<open>The loop\<close>

lemma pollLoop_Done:
  "iteration e h l w = Done r l' w' \<Longrightarrow> pollLoop e h l w = Some (r, l', w')"
  by (subst pollLoop.simps) simp

lemma pollLoop_Continue:
  "iteration e h l w = Continue l' w' \<Longrightarrow> pollLoop e h l w = pollLoop e h l' w'"
  by (subst pollLoop.simps) simp

lemma reaches_pollLoop:
  "reaches e h l w l' w' \<Longrightarrow> pollLoop e h l w = pollLoop e h l' w'"
  by (induction rule: reaches.induct) (simp_all add: pollLoop_Continue)

lemma reaches_trans:
  "reaches e h l w l1 w1 \<Longrightarrow> reaches e h l1 w1 l2 w2 \<Longrightarrow> reaches e h l w l2 w2"
  by (induction rule: reaches.induct) (auto intro: reaches.intros)

lemma reaches_snoc:
  "reaches e h l w l1 w1 \<Longrightarrow> iteration e h l1 w1 = Continue l2 w2 \<Longrightarrow> reaches e h l w l2 w2"
  by (rule reaches_trans, assumption) (rule reaches.later, assumption, rule reaches.here)

lemma reaches_keeps_fallback:
  "reaches e h l w l' w' \<Longrightarrow> useApiKeyFallback l \<Longrightarrow> useApiKeyFallback l'"
  by (induction rule: reaches.induct) (auto dest: iteration_keeps_fallback)

lemma reaches_events:
  "reaches e h l w l' w' \<Longrightarrow>
   \<exists>new. events w' = new @ events w \<and> (\<forall>ev \<in> set new. poll_event h ev)"
proof (induction rule: reaches.induct)
  case (here l w)
  show ?case by simp
next
  case (later l w l1 w1 l2 w2)
  from iteration_Continue_events [OF later(1)] obtain n1
    where n1: "events w1 = n1 @ events w" "\<forall>ev \<in> set n1. poll_event h ev" by blast
  from later(3) obtain n2
    where n2: "events w2 = n2 @ events w1" "\<forall>ev \<in> set n2. poll_event h ev" by blast
  from n1 n2 have "events w2 = (n2 @ n1) @ events w \<and> (\<forall>ev \<in> set (n2 @ n1). poll_event h ev)"
    by auto
  then show ?case by blast
qed

text \<open>A run that returns has come, pass by pass, to a pass that left the loop.\<close>

lemma pollLoop_final_aux:
  assumes run: "pollLoop e h l w = Some res"
  shows "\<exists>l1 w1. reaches e h l w l1 w1 \<and>
           iteration e h l1 w1 = (case res of (r, lz, wz) \<Rightarrow> Done r lz wz)"
proof (rule pollLoop.raw_induct [where P = "\<lambda>e h l w res. \<exists>l1 w1. reaches e h l w l1 w1 \<and>
    iteration e h l1 w1 = (case res of (r, lz, wz) \<Rightarrow> Done r lz wz)", OF _ run])
  fix f e h l w res
  assume IH: "\<And>e h l w res. f e h l w = Some res \<Longrightarrow>
      \<exists>l1 w1. reaches e h l w l1 w1 \<and>
        iteration e h l1 w1 = (case res of (r, lz, wz) \<Rightarrow> Done r lz wz)"
    and unfolded: "(case iteration e h l w of Done r l' w' \<Rightarrow> Some (r, l', w')
      | Continue l' w' \<Rightarrow> f e h l' w') = Some res"
  show "\<exists>l1 w1. reaches e h l w l1 w1 \<and>
          iteration e h l1 w1 = (case res of (r, lz, wz) \<Rightarrow> Done r lz wz)"
  proof (cases "iteration e h l w")
    case (Done r l' w')
    with unfolded have "res = (r, l', w')" by simp
    with Done have "reaches e h l w l w \<and>
        iteration e h l w = (case res of (r, lz, wz) \<Rightarrow> Done r lz wz)"
      by (simp add: reaches.here)
    then show ?thesis by blast
  next
    case (Continue l' w')
    with unfolded have "f e h l' w' = Some res" by simp
    from IH [OF this] obtain l1 w1 where "reaches e h l' w' l1 w1"
      and "iteration e h l1 w1 = (case res of (r, lz, wz) \<Rightarrow> Done r lz wz)" by blast
    with Continue show ?thesis by (blast intro: reaches.later)
  qed
qed

lemma pollLoop_final:
  assumes "pollLoop e h l w = Some (r, lz, wz)"
  shows "\<exists>l1 w1. reaches e h l w l1 w1 \<and> iteration e h l1 w1 = Done r lz wz"
  using pollLoop_final_aux [OF assms] by simp

text \<open>
  When every pass that issues a status check ends in the sleep, the loop ends with the
  timeout, provided the random numbers are not negative and a timer set for a
  millisecond or more lets the clock advance by a millisecond or more.
\<close>

lemma waits_until_timeout:
  assumes rnd: "\<forall>k. 0 \<le> random e k"
    and tmr: "\<forall>k ms. 1 \<le> ms \<longrightarrow> 1 \<le> timer_ms e k ms"
    and waits: "\<And>l w. now w - startTime l < POLLING_TIMEOUT_MS \<Longrightarrow>
       \<exists>l'. startTime l' = startTime l \<and>
            iteration e h l w = waitForNextPoll e l' (now w - startTime l)
              (after_fetch e (statusRequest h (useApiKeyFallback l)) w)"
  shows "\<exists>l' w'. pollLoop e h l w = Some (Inl (TaskAsyncTimeoutError (id' h)), l', w')"
proof (induction "nat (POLLING_TIMEOUT_MS - (now w - startTime l))" arbitrary: l w rule: less_induct)
  case less
  show ?case
  proof (cases "POLLING_TIMEOUT_MS \<le> now w - startTime l")
    case True
    then have "iteration e h l w = Done (Inl (TaskAsyncTimeoutError (id' h))) l w"
      by (simp add: iteration_unfold)
    then show ?thesis by (blast dest: pollLoop_Done)
  next
    case False
    then have open_budget: "now w - startTime l < POLLING_TIMEOUT_MS" by simp
    define w1 where "w1 = after_fetch e (statusRequest h (useApiKeyFallback l)) w"
    define d where "d = waitTime e (now w - startTime l) w1"
    define w2 where "w2 = sleep e d (w1\<lparr>randoms := Suc (randoms w1)\<rparr>)"
    from waits [OF open_budget] obtain l' where st: "startTime l' = startTime l"
      and it: "iteration e h l w = Continue l' w2"
      by (auto simp add: waitForNextPoll_eq w1_def d_def w2_def)
    have "1 \<le> d" unfolding d_def using rnd open_budget by (intro waitTime_ge_1) auto
    with tmr have "1 \<le> timer_ms e (timers w1) d" by blast
    then have "now w + 1 \<le> now w2"
      by (simp add: w2_def sleep_def w1_def after_fetch_def)
    with st open_budget
    have "nat (POLLING_TIMEOUT_MS - (now w2 - startTime l'))
            < nat (POLLING_TIMEOUT_MS - (now w - startTime l))"
      by linarith
    from less [OF this] obtain l3 w3
      where "pollLoop e h l' w2 = Some (Inl (TaskAsyncTimeoutError (id' h)), l3, w3)" by blast
    with it show ?thesis by (simp add: pollLoop_Continue)
  qed
qed

section \<open>Whole resolutions\<close>

lemma polls_at_start: "polls_at e h w0 (initial_locals w0) (entered h w0)"
  by (simp add: polls_at_def reaches.here initial_locals_def entered_def POLLING_TIMEOUT_MS_def)

lemma polls_at_Done:
  assumes "polls_at e h w0 l w" and "iteration e h l w = Done r l' w'"
  shows "pollUntilCompleted e h w0 = Some (r, w')"
proof -
  from assms(1) have "pollLoop e h (initial_locals w0) (entered h w0) = pollLoop e h l w"
    by (simp add: polls_at_def reaches_pollLoop)
  with pollLoop_Done [OF assms(2)] show ?thesis by (simp add: pollUntilCompleted_def)
qed

lemma pollUntilCompleted_timeout:
  assumes "\<exists>l' w'. pollLoop e h (initial_locals w0) (entered h w0)
            = Some (Inl (TaskAsyncTimeoutError (id' h)), l', w')"
  shows "\<exists>w'. pollUntilCompleted e h w0 = Some (Inl (TaskAsyncTimeoutError (id' h)), w')"
  using assms by (auto simp add: pollUntilCompleted_def)

lemma completed_fetch:
  assumes "polls_at e h w0 l w"
    and "fst (fetchStatus e h (useApiKeyFallback l) w) = OkTrue completed"
    and "serve_task e (Suc (fetches w)) (detailsRequest h) = Response k s (Inr d)"
  shows "pollUntilCompleted e h w0 =
           Some (if k then Inr (Task d)
                 else if s = 401 \<or> s = 403 \<or> s = 404
                   then Inl (TaskAsyncUnauthorizedError (id' h))
                 else Inl (TaskAsyncTaskFetchError (id' h) (Some s)),
                 after_fetch e (detailsRequest h)
                   (after_fetch e (statusRequest h (useApiKeyFallback l)) w))"
proof -
  let ?w1 = "after_fetch e (statusRequest h (useApiKeyFallback l)) w"
  have n: "fetches ?w1 = Suc (fetches w)" by (simp add: after_fetch_def)
  from assms(1,2) have it: "iteration e h l w = finish_completed e h (l\<lparr>retryCount := 0\<rparr>) ?w1"
    by (simp add: iteration_unfold polls_at_def)
  have "fst (fetchTask e h ?w1) =
          (if k then Inr d
           else if s = 401 \<or> s = 403 \<or> s = 404 then Inl (TaskAsyncUnauthorizedError (id' h))
           else Inl (TaskAsyncTaskFetchError (id' h) (Some s)))"
    by (simp add: fetchTask_served n assms(3))
  then have "finish_completed e h (l\<lparr>retryCount := 0\<rparr>) ?w1 =
      Done (if k then Inr (Task d)
            else if s = 401 \<or> s = 403 \<or> s = 404
              then Inl (TaskAsyncUnauthorizedError (id' h))
            else Inl (TaskAsyncTaskFetchError (id' h) (Some s)))
        (l\<lparr>retryCount := 0\<rparr>) (after_fetch e (detailsRequest h) ?w1)"
    by (simp add: finish_completed_def)
  with it polls_at_Done [OF assms(1)] show ?thesis by simp
qed

section \<open>Evaluating the examples\<close>

text \<open>Evaluating a pass in an example environment.\<close>

lemmas example_defs = scripted_def ex_handle_def ex_handle_pat_def new_TaskAsync_def ex_client_def
  ex_world_def initial_locals_def entered_def truthy_def statusRequest_def detailsRequest_def

lemmas pass_eval = iteration_unfold fetchStatus_served fetchTask_served finish_completed_def
  waitForNextPoll_eq waitTime_def sleep_def after_fetch_def
  POLLING_TIMEOUT_MS_def FAST_POLLING_DURATION_MS_def FAST_POLLING_INTERVAL_MS_def
  SLOW_POLLING_INTERVAL_MS_def MAX_RETRY_COUNT_def

lemma String_of_500: "String_of 500 = ''500''"
  by code_simp

lemmas suspended_defs = env_suspended_def env_always_pending_def suspended_locals_def
  suspended_world1_def suspended_world2_def

lemma suspended_start:
  "initial_locals ex_world = suspended_locals" "startTime suspended_locals = 1000"
  by (simp_all add: suspended_defs example_defs)

lemma suspended_pass1:
  "iteration env_suspended ex_handle suspended_locals (entered ex_handle ex_world)
     = Continue suspended_locals suspended_world1"
  by (simp add: pass_eval suspended_defs example_defs)

lemma suspended_pass2:
  "iteration env_suspended ex_handle suspended_locals suspended_world1
     = Continue suspended_locals suspended_world2"
  by (simp add: pass_eval suspended_defs example_defs)

lemma suspended_pass3:
  "iteration env_suspended ex_handle suspended_locals suspended_world2
     = Done (Inl (TaskAsyncTimeoutError ''task_1'')) suspended_locals suspended_world2"
  by (simp add: pass_eval suspended_defs example_defs)

lemma suspended_reaches:
  "reaches env_suspended ex_handle (initial_locals ex_world) (entered ex_handle ex_world)
     suspended_locals suspended_world2"
  unfolding suspended_start
  by (rule reaches.later [OF suspended_pass1], rule reaches.later [OF suspended_pass2],
      rule reaches.here)


section \<open>C1: seven transient failures in a row\<close>







section \<open>C2: unauthorized status checks\<close>

text \<open>
  C2. A status response that is not ok with status 401, 403 or 404 is classified as
  unauthorized. When a status check of a resolution is unauthorized, the handle has a
  public access token (a string that is not empty) and the fallback flag is not set,
  the pass sets the flag and goes straight to the next pass: the world in which the next
  pass starts is the world in which the check returned, with no timer set and nothing
  done but the status request, and a status check made with the flag set carries the
  API key. When the flag is already set or the handle has no public token, the
  resolution fails with the unauthorized error. A flag that is set stays set in every
  later pass.
\<close>

theorem unauthorized_fallback:
  "(serve_status e (fetches w) (statusRequest h b) = Response False s (Inr body)
      \<and> (s = 401 \<or> s = 403 \<or> s = 404)
    \<longrightarrow> fst (fetchStatus e h b w) = OkFalse True False None)
   \<and> (polls_at e h w0 l w
        \<and> is_unauthorized (fst (fetchStatus e h (useApiKeyFallback l) w))
        \<and> truthy (publicAccessToken (access h)) \<and> \<not> useApiKeyFallback l
      \<longrightarrow> iteration e h l w =
            Continue (l\<lparr>useApiKeyFallback := True\<rparr>) (snd (fetchStatus e h False w))
          \<and> timers (snd (fetchStatus e h False w)) = timers w
          \<and> events (snd (fetchStatus e h False w)) = Fetched (statusRequest h False) # events w
          \<and> reaches e h (initial_locals w0) (entered h w0)
               (l\<lparr>useApiKeyFallback := True\<rparr>) (snd (fetchStatus e h False w))
          \<and> headers (statusRequest h True)
               = [(''Authorization'', ''Bearer '' @ apiKey (client h))])
   \<and> (polls_at e h w0 l w
        \<and> is_unauthorized (fst (fetchStatus e h (useApiKeyFallback l) w))
        \<and> (useApiKeyFallback l \<or> \<not> truthy (publicAccessToken (access h)))
      \<longrightarrow> pollUntilCompleted e h w0 =
            Some (Inl (TaskAsyncUnauthorizedError (id' h)),
                  snd (fetchStatus e h (useApiKeyFallback l) w)))
   \<and> (reaches e h l w l' w' \<and> useApiKeyFallback l \<longrightarrow> useApiKeyFallback l')"
proof -
  have a: "fst (fetchStatus e h b w) = OkFalse True False None"
    if "serve_status e (fetches w) (statusRequest h b) = Response False s (Inr body)"
      and "s = 401 \<or> s = 403 \<or> s = 404"
    using that by (auto simp add: fetchStatus_served)
  have b: "iteration e h l w =
            Continue (l\<lparr>useApiKeyFallback := True\<rparr>) (snd (fetchStatus e h False w))
          \<and> timers (snd (fetchStatus e h False w)) = timers w
          \<and> events (snd (fetchStatus e h False w)) = Fetched (statusRequest h False) # events w
          \<and> reaches e h (initial_locals w0) (entered h w0)
               (l\<lparr>useApiKeyFallback := True\<rparr>) (snd (fetchStatus e h False w))
          \<and> headers (statusRequest h True)
               = [(''Authorization'', ''Bearer '' @ apiKey (client h))]"
    if p: "polls_at e h w0 l w"
      and u: "is_unauthorized (fst (fetchStatus e h (useApiKeyFallback l) w))"
      and t: "truthy (publicAccessToken (access h))" and f: "\<not> useApiKeyFallback l"
  proof -
    from u obtain rt err where "fst (fetchStatus e h (useApiKeyFallback l) w) = OkFalse True rt err"
      by (cases "fst (fetchStatus e h (useApiKeyFallback l) w)") auto
    with p t f have it: "iteration e h l w =
        Continue (l\<lparr>useApiKeyFallback := True\<rparr>) (snd (fetchStatus e h False w))"
      by (simp add: iteration_unfold polls_at_def snd_fetchStatus)
    from p have "reaches e h (initial_locals w0) (entered h w0) l w" by (simp add: polls_at_def)
    from reaches_snoc [OF this it] it show ?thesis
      by (simp add: snd_fetchStatus after_fetch_def statusRequest_def)
  qed
  have c: "pollUntilCompleted e h w0 =
            Some (Inl (TaskAsyncUnauthorizedError (id' h)),
                  snd (fetchStatus e h (useApiKeyFallback l) w))"
    if p: "polls_at e h w0 l w"
      and u: "is_unauthorized (fst (fetchStatus e h (useApiKeyFallback l) w))"
      and f: "useApiKeyFallback l \<or> \<not> truthy (publicAccessToken (access h))"
  proof -
    from u obtain rt err where "fst (fetchStatus e h (useApiKeyFallback l) w) = OkFalse True rt err"
      by (cases "fst (fetchStatus e h (useApiKeyFallback l) w)") auto
    with p f have "iteration e h l w =
        Done (Inl (TaskAsyncUnauthorizedError (id' h))) l (snd (fetchStatus e h (useApiKeyFallback l) w))"
      by (auto simp add: iteration_unfold polls_at_def snd_fetchStatus)
    from polls_at_Done [OF p this] show ?thesis .
  qed
  have d: "useApiKeyFallback l'" if "reaches e h l w l' w'" and "useApiKeyFallback l"
    using that by (rule reaches_keeps_fallback)
  from a b c d show ?thesis by blast
qed

theorem unauthorized_fallback_witness:
  "fst (fetchStatus env_denied ex_handle_pat False ex_world) = OkFalse True False None
   \<and> iteration env_key_only ex_handle_pat (initial_locals ex_world) (entered ex_handle_pat ex_world)
       = Continue \<lparr>startTime = 1000, retryCount = 0, useApiKeyFallback = True, lastError = None\<rparr>
           \<lparr>now = 1040, fetches = 1, randoms = 0, timers = 0,
            events = [Fetched \<lparr>url = ''https://api.mynth.io/tasks/task_1/status'',
                               headers = [(''Authorization'', ''Bearer pat_1'')]\<rparr>,
                      PollStarted ''task_1'']\<rparr>
   \<and> headers (statusRequest ex_handle_pat True) = [(''Authorization'', ''Bearer mak_live'')]
   \<and> map_option fst (pollUntilCompleted env_denied ex_handle ex_world)
       = Some (Inl (TaskAsyncUnauthorizedError ''task_1''))
   \<and> useApiKeyFallback \<lparr>startTime = 1000, retryCount = 0, useApiKeyFallback = True, lastError = None\<rparr>"
proof -
  have a: "fst (fetchStatus env_denied ex_handle_pat False ex_world) = OkFalse True False None"
    using unauthorized_fallback [where e = env_denied and h = ex_handle_pat and b = False
        and w = ex_world and s = 403 and body = "StatusBody pending"]
    by (simp add: env_denied_def scripted_def)
  have b: "iteration env_key_only ex_handle_pat (initial_locals ex_world) (entered ex_handle_pat ex_world)
       = Continue \<lparr>startTime = 1000, retryCount = 0, useApiKeyFallback = True, lastError = None\<rparr>
           \<lparr>now = 1040, fetches = 1, randoms = 0, timers = 0,
            events = [Fetched \<lparr>url = ''https://api.mynth.io/tasks/task_1/status'',
                               headers = [(''Authorization'', ''Bearer pat_1'')]\<rparr>,
                      PollStarted ''task_1'']\<rparr>
     \<and> headers (statusRequest ex_handle_pat True) = [(''Authorization'', ''Bearer mak_live'')]"
    using unauthorized_fallback [where e = env_key_only and h = ex_handle_pat
        and ?w0.0 = ex_world and l = "initial_locals ex_world"
        and w = "entered ex_handle_pat ex_world"]
      polls_at_start [of env_key_only ex_handle_pat ex_world]
    by (simp add: fetchStatus_served snd_fetchStatus after_fetch_def statusRequest_def
        env_key_only_def scripted_def ex_handle_pat_def new_TaskAsync_def ex_client_def
        truthy_def initial_locals_def entered_def ex_world_def)
  have c: "map_option fst (pollUntilCompleted env_denied ex_handle ex_world)
       = Some (Inl (TaskAsyncUnauthorizedError ''task_1''))"
    using unauthorized_fallback [where e = env_denied and h = ex_handle
        and ?w0.0 = ex_world and l = "initial_locals ex_world"
        and w = "entered ex_handle ex_world"]
      polls_at_start [of env_denied ex_handle ex_world]
    by (simp add: fetchStatus_served statusRequest_def
        env_denied_def scripted_def ex_handle_def new_TaskAsync_def ex_client_def
        truthy_def initial_locals_def entered_def ex_world_def)
  have d: "useApiKeyFallback \<lparr>startTime = 1000, retryCount = 0, useApiKeyFallback = True, lastError = None\<rparr>"
    using unauthorized_fallback [where e = env_denied and h = ex_handle
        and l = "\<lparr>startTime = 1000, retryCount = 0, useApiKeyFallback = True, lastError = None\<rparr>"
        and w = ex_world
        and l' = "\<lparr>startTime = 1000, retryCount = 0, useApiKeyFallback = True, lastError = None\<rparr>"
        and w' = ex_world]
    by (simp add: reaches.here)
  from a b c d show ?thesis by simp
qed

section \<open>C3: the timeout budget\<close>

lemma always_pending_waits:
  assumes "\<forall>n req. \<exists>s. serve_status e n req = Response True s (Inr (StatusBody pending))"
    and "now w - startTime l < POLLING_TIMEOUT_MS"
  shows "iteration e h l w = waitForNextPoll e (l\<lparr>retryCount := 0\<rparr>) (now w - startTime l)
              (after_fetch e (statusRequest h (useApiKeyFallback l)) w)"
proof -
  from assms(1) obtain s where
    "serve_status e (fetches w) (statusRequest h (useApiKeyFallback l))
       = Response True s (Inr (StatusBody pending))" by blast
  then have "fst (fetchStatus e h (useApiKeyFallback l) w) = OkTrue pending"
    by (simp add: fetchStatus_served)
  with assms(2) show ?thesis by (simp add: iteration_unfold)
qed

text \<open>
  C3. The loop sleeps past its deadline: the sleep is capped by the time that remained
  when the pass began, \<^verbatim>\<open>POLLING_TIMEOUT_MS - elapsed\<close> with the \<^verbatim>\<open>elapsed\<close> read before the
  awaited status check, and not by the time that remains when the timer is set. So the
  code waits longer than the remaining timeout, against its own comment
  \<^verbatim>\<open>Don't wait longer than remaining timeout\<close>, by as long as the status check took.

  In this run the task always reports \<open>pending\<close> and every network call takes 40 ms.
  The resolution starts at 1000 on the clock, so its deadline is 301000. The first
  timer fires late, and the second pass starts at 300040, 960 ms before the deadline.
  Its status check takes 40 ms. The sleep that follows is set at 300080, when 920 ms
  remain, for the 960 ms computed before the check; its timer fires on time, at 301040,
  which is 40 ms after the deadline. Only then does the third pass fail with the
  timeout error.
\<close>

theorem sleep_ends_after_deadline:
  "pollUntilCompleted env_suspended ex_handle ex_world =
     Some (Inl (TaskAsyncTimeoutError ''task_1''), suspended_world2)
   \<and> events suspended_world2 =
       [Slept 960,
        Fetched \<lparr>url = ''https://api.mynth.io/tasks/task_1/status'',
                 headers = [(''Authorization'', ''Bearer mak_live'')]\<rparr>,
        Slept 2750,
        Fetched \<lparr>url = ''https://api.mynth.io/tasks/task_1/status'',
                 headers = [(''Authorization'', ''Bearer mak_live'')]\<rparr>,
        PollStarted ''task_1'']
   \<and> now (after_fetch env_suspended (statusRequest ex_handle False) suspended_world1) = 300080
   \<and> startTime (initial_locals ex_world) + POLLING_TIMEOUT_MS
       - now (after_fetch env_suspended (statusRequest ex_handle False) suspended_world1) = 920
   \<and> timer_ms env_suspended 1 960 = 960
   \<and> now suspended_world2 = 301040
   \<and> startTime (initial_locals ex_world) + POLLING_TIMEOUT_MS = 301000"
proof -
  have "pollLoop env_suspended ex_handle (initial_locals ex_world) (entered ex_handle ex_world)
          = pollLoop env_suspended ex_handle suspended_locals suspended_world2"
    by (rule reaches_pollLoop [OF suspended_reaches])
  also have "\<dots> = Some (Inl (TaskAsyncTimeoutError ''task_1''), suspended_locals, suspended_world2)"
    by (rule pollLoop_Done [OF suspended_pass3])
  finally have "pollUntilCompleted env_suspended ex_handle ex_world
               = Some (Inl (TaskAsyncTimeoutError ''task_1''), suspended_world2)"
    by (simp add: pollUntilCompleted_def)
  then show ?thesis
    by (simp add: suspended_defs example_defs POLLING_TIMEOUT_MS_def after_fetch_def)
qed

text \<open>
  What the code does keep of the timeout budget. A pass that starts when the elapsed
  time has reached the budget fails with the timeout error in the world it started in,
  without a status check, and so does the resolution. Every sleep is set for the
  minimum of the base interval plus the jitter and of the budget minus the elapsed
  time read at the start of the pass, which is at most the time that was left at the
  start of the pass. A task that always reports \<open>pending\<close> fails with the timeout error,
  provided the random numbers are not negative and every timer set for a millisecond or
  more lets the clock advance by a millisecond or more.
\<close>

theorem timeout_budget:
  "(POLLING_TIMEOUT_MS \<le> now w - startTime l
      \<longrightarrow> iteration e h l w = Done (Inl (TaskAsyncTimeoutError (id' h))) l w)
   \<and> (reaches e h (initial_locals w0) (entered h w0) l w
        \<and> POLLING_TIMEOUT_MS \<le> now w - startTime l
      \<longrightarrow> pollUntilCompleted e h w0 = Some (Inl (TaskAsyncTimeoutError (id' h)), w))
   \<and> (iteration e h l w = Continue l' w' \<and> timers w' \<noteq> timers w
      \<longrightarrow> timers w' = Suc (timers w)
          \<and> events w' =
              Slept (min (real_of_int (if now w - startTime l < FAST_POLLING_DURATION_MS
                                       then FAST_POLLING_INTERVAL_MS
                                       else SLOW_POLLING_INTERVAL_MS)
                          + random e (randoms w) * 500)
                         (real_of_int (POLLING_TIMEOUT_MS - (now w - startTime l))))
              # Fetched (statusRequest h (useApiKeyFallback l)) # events w
          \<and> min (real_of_int (if now w - startTime l < FAST_POLLING_DURATION_MS
                               then FAST_POLLING_INTERVAL_MS
                               else SLOW_POLLING_INTERVAL_MS)
                  + random e (randoms w) * 500)
                 (real_of_int (POLLING_TIMEOUT_MS - (now w - startTime l)))
              \<le> real_of_int (startTime l + POLLING_TIMEOUT_MS - now w))
   \<and> ((\<forall>n req. \<exists>s. serve_status e n req = Response True s (Inr (StatusBody pending)))
        \<and> (\<forall>k. 0 \<le> random e k)
        \<and> (\<forall>k ms. 1 \<le> ms \<longrightarrow> 1 \<le> timer_ms e k ms)
      \<longrightarrow> map_option fst (pollUntilCompleted e h w0)
            = Some (Inl (TaskAsyncTimeoutError (id' h))))"
proof -
  have a: "iteration e h l w = Done (Inl (TaskAsyncTimeoutError (id' h))) l w"
    if "POLLING_TIMEOUT_MS \<le> now w - startTime l"
    using that by (simp add: iteration_unfold)
  have b: "pollUntilCompleted e h w0 = Some (Inl (TaskAsyncTimeoutError (id' h)), w)"
    if r: "reaches e h (initial_locals w0) (entered h w0) l w"
      and t: "POLLING_TIMEOUT_MS \<le> now w - startTime l"
  proof -
    from r have "pollLoop e h (initial_locals w0) (entered h w0) = pollLoop e h l w"
      by (rule reaches_pollLoop)
    with pollLoop_Done [OF a [OF t]] show ?thesis by (simp add: pollUntilCompleted_def)
  qed
  have c: "timers w' = Suc (timers w)
          \<and> events w' =
              Slept (min (real_of_int (if now w - startTime l < FAST_POLLING_DURATION_MS
                                       then FAST_POLLING_INTERVAL_MS
                                       else SLOW_POLLING_INTERVAL_MS)
                          + random e (randoms w) * 500)
                         (real_of_int (POLLING_TIMEOUT_MS - (now w - startTime l))))
              # Fetched (statusRequest h (useApiKeyFallback l)) # events w
          \<and> min (real_of_int (if now w - startTime l < FAST_POLLING_DURATION_MS
                               then FAST_POLLING_INTERVAL_MS
                               else SLOW_POLLING_INTERVAL_MS)
                  + random e (randoms w) * 500)
                 (real_of_int (POLLING_TIMEOUT_MS - (now w - startTime l)))
              \<le> real_of_int (startTime l + POLLING_TIMEOUT_MS - now w)"
    if it: "iteration e h l w = Continue l' w'" and tm: "timers w' \<noteq> timers w"
  proof -
    from iteration_Continue_world [OF it] tm
    have "w' = sleep e (waitTime e (now w - startTime l)
                          (after_fetch e (statusRequest h (useApiKeyFallback l)) w))
                  ((after_fetch e (statusRequest h (useApiKeyFallback l)) w)
                     \<lparr>randoms := Suc (randoms (after_fetch e (statusRequest h (useApiKeyFallback l)) w))\<rparr>)"
      by (auto simp add: after_fetch_def)
    then show ?thesis
      by (simp add: sleep_def after_fetch_def waitTime_def)
  qed
  have d0: "\<exists>wz. pollUntilCompleted e h w0 = Some (Inl (TaskAsyncTimeoutError (id' h)), wz)"
    if p: "\<forall>n req. \<exists>s. serve_status e n req = Response True s (Inr (StatusBody pending))"
      and rnd: "\<forall>k. 0 \<le> random e k"
      and tmr: "\<forall>k ms. 1 \<le> ms \<longrightarrow> 1 \<le> timer_ms e k ms"
  proof (rule pollUntilCompleted_timeout, rule waits_until_timeout [OF rnd tmr])
    fix l :: locals and w :: world
    assume "now w - startTime l < POLLING_TIMEOUT_MS"
    from always_pending_waits [OF p this, of h]
    show "\<exists>l'. startTime l' = startTime l \<and>
            iteration e h l w = waitForNextPoll e l' (now w - startTime l)
              (after_fetch e (statusRequest h (useApiKeyFallback l)) w)"
      by (intro exI [of _ "l\<lparr>retryCount := 0\<rparr>"]) simp
  qed
  have d: "map_option fst (pollUntilCompleted e h w0) = Some (Inl (TaskAsyncTimeoutError (id' h)))"
    if "\<forall>n req. \<exists>s. serve_status e n req = Response True s (Inr (StatusBody pending))"
      and "\<forall>k. 0 \<le> random e k"
      and "\<forall>k ms. 1 \<le> ms \<longrightarrow> 1 \<le> timer_ms e k ms"
    using d0 [OF that] by auto
  from a b c d show ?thesis by blast
qed

theorem timeout_budget_witness:
  "iteration env_suspended ex_handle suspended_locals suspended_world2
     = Done (Inl (TaskAsyncTimeoutError ''task_1'')) suspended_locals suspended_world2
   \<and> pollUntilCompleted env_suspended ex_handle ex_world
     = Some (Inl (TaskAsyncTimeoutError ''task_1''), suspended_world2)
   \<and> events suspended_world2 =
       Slept 960 # Fetched (statusRequest ex_handle False) # events suspended_world1
   \<and> (960 :: real) \<le> real_of_int (1000 + 300000 - 300040)
   \<and> map_option fst (pollUntilCompleted env_always_pending ex_handle ex_world)
     = Some (Inl (TaskAsyncTimeoutError ''task_1''))"
proof -
  have late: "POLLING_TIMEOUT_MS \<le> now suspended_world2 - startTime suspended_locals"
    by (simp add: suspended_defs POLLING_TIMEOUT_MS_def)
  have a: "iteration env_suspended ex_handle suspended_locals suspended_world2
     = Done (Inl (TaskAsyncTimeoutError ''task_1'')) suspended_locals suspended_world2
   \<and> pollUntilCompleted env_suspended ex_handle ex_world
     = Some (Inl (TaskAsyncTimeoutError ''task_1''), suspended_world2)"
    using timeout_budget [where e = env_suspended and h = ex_handle and l = suspended_locals
        and w = suspended_world2 and ?w0.0 = ex_world] late suspended_reaches
    by (simp add: example_defs)
  have b: "events suspended_world2 =
       Slept 960 # Fetched (statusRequest ex_handle False) # events suspended_world1
     \<and> (960 :: real) \<le> real_of_int (1000 + 300000 - 300040)"
    using timeout_budget [where e = env_suspended and h = ex_handle and l = suspended_locals
        and w = suspended_world1 and l' = suspended_locals and w' = suspended_world2]
      suspended_pass2
    by (simp add: suspended_defs example_defs)
  have pend: "\<forall>n req. \<exists>s. serve_status env_always_pending n req
                 = Response True s (Inr (StatusBody pending))"
    by (simp add: env_always_pending_def scripted_def)
  have rnd: "\<forall>k. 0 \<le> random env_always_pending k"
    by (simp add: env_always_pending_def scripted_def)
  have tmr: "\<forall>k ms. 1 \<le> ms \<longrightarrow> 1 \<le> timer_ms env_always_pending k ms"
    by (simp add: env_always_pending_def scripted_def exact_timer_progress)
  have "map_option fst (pollUntilCompleted env_always_pending ex_handle ex_world)
     = Some (Inl (TaskAsyncTimeoutError (id' ex_handle)))"
    using timeout_budget [where e = env_always_pending and h = ex_handle and ?w0.0 = ex_world
        and l = suspended_locals and w = ex_world and l' = suspended_locals and w' = ex_world]
      pend rnd tmr
    by blast
  then have c: "map_option fst (pollUntilCompleted env_always_pending ex_handle ex_world)
     = Some (Inl (TaskAsyncTimeoutError ''task_1''))"
    by (simp add: example_defs)
  from a b c show ?thesis by simp
qed

section \<open>C4: the reset of the failure counter\<close>

lemma transient_run:
  assumes F: "\<forall>n. fetch_ms e n \<le> 5000"
    and T: "\<forall>k ms. ms \<le> 5500 \<longrightarrow> timer_ms e k ms \<le> 20000"
    and R: "\<forall>k. random e k < 1"
  shows "(\<forall>i < k. transient (serve_status e (fetches w + i) (statusRequest h (useApiKeyFallback l))))
     \<Longrightarrow> retryCount l + k < MAX_RETRY_COUNT
     \<Longrightarrow> now w - startTime l + 25000 * int k \<le> POLLING_TIMEOUT_MS
     \<Longrightarrow> \<exists>l' w'. reaches e h l w l' w' \<and> retryCount l' = retryCount l + k
           \<and> fetches w' = fetches w + k \<and> startTime l' = startTime l
           \<and> useApiKeyFallback l' = useApiKeyFallback l
           \<and> now w' \<le> now w + 25000 * int k"
proof (induction k arbitrary: l w)
  case 0
  show ?case by (auto intro: reaches.here)
next
  case (Suc k)
  from Suc(4) have open_budget: "now w - startTime l < POLLING_TIMEOUT_MS" by simp
  from Suc(2) have tr0: "transient (serve_status e (fetches w) (statusRequest h (useApiKeyFallback l)))"
    by (metis add.right_neutral zero_less_Suc)
  from Suc(3) have "Suc (retryCount l) < MAX_RETRY_COUNT" by simp
  from transient_pass [OF open_budget tr0 this] obtain l1 w1
    where it: "iteration e h l w = Continue l1 w1" and rc: "retryCount l1 = Suc (retryCount l)"
      and st: "startTime l1 = startTime l" and fb: "useApiKeyFallback l1 = useApiKeyFallback l"
    by blast
  from pass_progress [OF F T R it] have nw: "now w1 \<le> now w + 25000"
    and fw: "fetches w1 = Suc (fetches w)" by simp_all
  have a: "\<forall>i < k. transient (serve_status e (fetches w1 + i) (statusRequest h (useApiKeyFallback l1)))"
  proof (intro allI impI)
    fix i assume "i < k"
    then have "Suc i < Suc k" by simp
    with Suc(2) have "transient (serve_status e (fetches w + Suc i) (statusRequest h (useApiKeyFallback l)))"
      by blast
    then show "transient (serve_status e (fetches w1 + i) (statusRequest h (useApiKeyFallback l1)))"
      by (simp add: fw fb)
  qed
  from Suc(3) rc have b: "retryCount l1 + k < MAX_RETRY_COUNT" by simp
  from Suc(4) nw st have c: "now w1 - startTime l1 + 25000 * int k \<le> POLLING_TIMEOUT_MS" by simp
  from Suc(1) [OF a b c] obtain l' w'
    where "reaches e h l1 w1 l' w'" "retryCount l' = retryCount l1 + k"
      "fetches w' = fetches w1 + k" "startTime l' = startTime l1"
      "useApiKeyFallback l' = useApiKeyFallback l1" "now w' \<le> now w1 + 25000 * int k"
    by blast
  with it rc st fb nw fw
  have "reaches e h l w l' w' \<and> retryCount l' = retryCount l + Suc k
           \<and> fetches w' = fetches w + Suc k \<and> startTime l' = startTime l
           \<and> useApiKeyFallback l' = useApiKeyFallback l
           \<and> now w' \<le> now w + 25000 * int (Suc k)"
    by (auto intro: reaches.later)
  then show ?case by blast
qed

lemma scenario_resolves:
  assumes F: "\<forall>n. fetch_ms e n \<le> 5000"
    and T: "\<forall>k ms. ms \<le> 5500 \<longrightarrow> timer_ms e k ms \<le> 20000"
    and R: "\<forall>k. random e k < 1"
    and tr: "\<forall>i req. i < 5 \<or> (5 < i \<and> i < 11)
               \<longrightarrow> transient (serve_status e (fetches w0 + i) req)"
    and pe: "\<forall>req. \<exists>s. serve_status e (fetches w0 + 5) req
               = Response True s (Inr (StatusBody pending))"
    and co: "\<forall>req. \<exists>s. serve_status e (fetches w0 + 11) req
               = Response True s (Inr (StatusBody completed))"
    and ta: "\<forall>req. \<exists>s. serve_task e (fetches w0 + 12) req = Response True s (Inr d)"
  shows "map_option fst (pollUntilCompleted e h w0) = Some (Inr (Task d))"
proof -
  let ?l0 = "initial_locals w0" and ?w0 = "entered h w0"
  have i0: "retryCount ?l0 = 0" "fetches ?w0 = fetches w0" "now ?w0 - startTime ?l0 = 0"
    by (simp_all add: initial_locals_def entered_def)
  \<comment> \<open>five failures\<close>
  have "\<exists>l' w'. reaches e h ?l0 ?w0 l' w' \<and> retryCount l' = retryCount ?l0 + 5
           \<and> fetches w' = fetches ?w0 + 5 \<and> startTime l' = startTime ?l0
           \<and> useApiKeyFallback l' = useApiKeyFallback ?l0
           \<and> now w' \<le> now ?w0 + 25000 * int 5"
    using tr i0 by (intro transient_run [OF F T R])
      (simp_all add: MAX_RETRY_COUNT_def POLLING_TIMEOUT_MS_def)
  then obtain l5 w5 where r5: "reaches e h ?l0 ?w0 l5 w5"
    and f5: "fetches w5 = fetches w0 + 5" and s5: "startTime l5 = startTime ?l0"
    and n5: "now w5 \<le> now ?w0 + 125000"
    using i0 by auto
  \<comment> \<open>the pending check\<close>
  from n5 s5 i0 have b5: "now w5 - startTime l5 < POLLING_TIMEOUT_MS"
    by (simp add: POLLING_TIMEOUT_MS_def)
  from pe f5 obtain s where "serve_status e (fetches w5) (statusRequest h (useApiKeyFallback l5))
           = Response True s (Inr (StatusBody pending))" by auto
  from pending_pass [OF b5 this] obtain l6 w6
    where it6: "iteration e h l5 w5 = Continue l6 w6" and c6: "retryCount l6 = 0"
      and s6: "startTime l6 = startTime l5" by blast
  from pass_progress [OF F T R it6] f5 n5
  have f6: "fetches w6 = fetches w0 + 6" and n6: "now w6 \<le> now ?w0 + 150000" by simp_all
  from reaches_snoc [OF r5 it6] have r6: "reaches e h ?l0 ?w0 l6 w6" .
  \<comment> \<open>five more failures\<close>
  have tr6: "\<forall>i < 5. transient (serve_status e (fetches w6 + i)
                                (statusRequest h (useApiKeyFallback l6)))"
  proof (intro allI impI)
    fix i :: nat assume "i < 5"
    then have "5 < 6 + i \<and> 6 + i < 11" by simp
    with tr have "transient (serve_status e (fetches w0 + (6 + i))
                              (statusRequest h (useApiKeyFallback l6)))" by blast
    then show "transient (serve_status e (fetches w6 + i)
                            (statusRequest h (useApiKeyFallback l6)))"
      by (simp add: f6 add.assoc)
  qed
  have "\<exists>l' w'. reaches e h l6 w6 l' w' \<and> retryCount l' = retryCount l6 + 5
           \<and> fetches w' = fetches w6 + 5 \<and> startTime l' = startTime l6
           \<and> useApiKeyFallback l' = useApiKeyFallback l6
           \<and> now w' \<le> now w6 + 25000 * int 5"
    using tr6 c6 n6 s6 s5 i0 by (intro transient_run [OF F T R])
      (simp_all add: MAX_RETRY_COUNT_def POLLING_TIMEOUT_MS_def)
  then obtain l11 w11 where r11: "reaches e h l6 w6 l11 w11"
    and f11: "fetches w11 = fetches w0 + 11" and s11: "startTime l11 = startTime ?l0"
    and n11: "now w11 \<le> now ?w0 + 275000"
    using f6 n6 s6 s5 by auto
  \<comment> \<open>the completed check and the full fetch\<close>
  from n11 s11 i0 have b11: "now w11 - startTime l11 < POLLING_TIMEOUT_MS"
    by (simp add: POLLING_TIMEOUT_MS_def)
  from reaches_trans [OF r6 r11] b11 have p: "polls_at e h w0 l11 w11"
    by (simp add: polls_at_def)
  from co f11 obtain s1 where "serve_status e (fetches w11) (statusRequest h (useApiKeyFallback l11))
           = Response True s1 (Inr (StatusBody completed))" by auto
  then have st: "fst (fetchStatus e h (useApiKeyFallback l11) w11) = OkTrue completed"
    by (simp add: fetchStatus_served)
  have "Suc (fetches w11) = fetches w0 + 12" by (simp add: f11)
  with ta obtain s2 where "serve_task e (Suc (fetches w11)) (detailsRequest h)
           = Response True s2 (Inr d)" by metis
  from completed_fetch [OF p st this] show ?thesis by simp
qed

lemma on_script_step:
  assumes tr: "\<forall>i req. i < 5 \<or> (5 < i \<and> i < 11)
               \<longrightarrow> transient (serve_status e (fetches w0 + i) req)"
    and pe: "\<forall>req. \<exists>s. serve_status e (fetches w0 + 5) req
               = Response True s (Inr (StatusBody pending))"
    and co: "\<forall>req. \<exists>s. serve_status e (fetches w0 + 11) req
               = Response True s (Inr (StatusBody completed))"
    and inv: "on_script w0 l w"
    and it: "iteration e h l w = Continue l' w'"
  shows "on_script w0 l' w'"
proof -
  let ?req = "statusRequest h (useApiKeyFallback l)"
  define i where "i = fetches w - fetches w0"
  with inv have i: "fetches w = fetches w0 + i" "i \<le> 11"
    by (auto simp add: on_script_def)
  from iteration_Continue_fetches [OF it] have f': "fetches w' = Suc (fetches w)" .
  from iteration_Continue_open [OF it] have ob: "now w - startTime l < POLLING_TIMEOUT_MS" .
  consider (a) "i < 5 \<or> (5 < i \<and> i < 11)" | (b) "i = 5" | (c) "i = 11"
    using i(2) by linarith
  then show ?thesis
  proof cases
    case a
    with tr have "transient (serve_status e (fetches w0 + i) ?req)" by blast
    with i have t: "transient (serve_status e (fetches w) ?req)" by simp
    then have "\<not> is_success (fst (fetchStatus e h (useApiKeyFallback l) w))"
      and "is_retryable (fst (fetchStatus e h (useApiKeyFallback l) w))"
      by (cases "fst (fetchStatus e h (useApiKeyFallback l) w)";
          simp add: transient_iff [symmetric])+
    with not_success_Continue [OF ob it] have "retryCount l' = retryCount l + 1" by simp
    with inv a i f' show ?thesis by (auto simp add: on_script_def)
  next
    case b
    with pe i obtain s where "serve_status e (fetches w) ?req
        = Response True s (Inr (StatusBody pending))" by auto
    from pending_pass [OF ob this] it have "retryCount l' = 0" by auto
    with b i f' show ?thesis by (simp add: on_script_def)
  next
    case c
    with co i obtain s where "serve_status e (fetches w) ?req
        = Response True s (Inr (StatusBody completed))" by auto
    from completed_never_continues [OF this, of l' w'] it show ?thesis by simp
  qed
qed

lemma on_script_reaches:
  assumes tr: "\<forall>i req. i < 5 \<or> (5 < i \<and> i < 11)
               \<longrightarrow> transient (serve_status e (fetches w0 + i) req)"
    and pe: "\<forall>req. \<exists>s. serve_status e (fetches w0 + 5) req
               = Response True s (Inr (StatusBody pending))"
    and co: "\<forall>req. \<exists>s. serve_status e (fetches w0 + 11) req
               = Response True s (Inr (StatusBody completed))"
  shows "reaches e h l w l' w' \<Longrightarrow> on_script w0 l w \<Longrightarrow> on_script w0 l' w'"
proof (induction rule: reaches.induct)
  case (here l w)
  then show ?case .
next
  case (later l w l1 w1 l2 w2)
  from on_script_step [OF tr pe co later(4) later(1)] later(3) show ?case by simp
qed

lemma scenario_outcomes:
  assumes tr: "\<forall>i req. i < 5 \<or> (5 < i \<and> i < 11)
               \<longrightarrow> transient (serve_status e (fetches w0 + i) req)"
    and pe: "\<forall>req. \<exists>s. serve_status e (fetches w0 + 5) req
               = Response True s (Inr (StatusBody pending))"
    and co: "\<forall>req. \<exists>s. serve_status e (fetches w0 + 11) req
               = Response True s (Inr (StatusBody completed))"
    and ta: "\<forall>req. \<exists>s. serve_task e (fetches w0 + 12) req = Response True s (Inr d)"
    and run: "pollUntilCompleted e h w0 = Some (r, wz)"
  shows "r = Inr (Task d) \<or> r = Inl (TaskAsyncTimeoutError (id' h))"
proof -
  from run obtain lz where "pollLoop e h (initial_locals w0) (entered h w0) = Some (r, lz, wz)"
    by (auto simp add: pollUntilCompleted_def)
  from pollLoop_final [OF this] obtain l w
    where re: "reaches e h (initial_locals w0) (entered h w0) l w"
      and fin: "iteration e h l w = Done r lz wz"
    by blast
  have "on_script w0 (initial_locals w0) (entered h w0)"
    by (simp add: on_script_def initial_locals_def entered_def)
  from on_script_reaches [OF tr pe co re this] have inv: "on_script w0 l w" .
  let ?req = "statusRequest h (useApiKeyFallback l)"
  show ?thesis
  proof (cases "now w - startTime l < POLLING_TIMEOUT_MS")
    case False
    with fin show ?thesis by (simp add: iteration_unfold)
  next
    case True
    define i where "i = fetches w - fetches w0"
    with inv have i: "fetches w = fetches w0 + i" "i \<le> 11"
      by (auto simp add: on_script_def)
    consider (a) "i < 5 \<or> (5 < i \<and> i < 11)" | (b) "i = 5" | (c) "i = 11"
      using i(2) by linarith
    then show ?thesis
    proof cases
      case a
      with tr have "transient (serve_status e (fetches w0 + i) ?req)" by blast
    with i have t: "transient (serve_status e (fetches w) ?req)" by simp
      from inv a i have "Suc (retryCount l) < MAX_RETRY_COUNT"
        by (auto simp add: on_script_def MAX_RETRY_COUNT_def)
      from transient_pass [OF True t this] fin show ?thesis by auto
    next
      case b
      with pe i obtain s where "serve_status e (fetches w) ?req
          = Response True s (Inr (StatusBody pending))" by auto
      from pending_pass [OF True this] fin show ?thesis by auto
    next
      case c
      with co i obtain s1 where "serve_status e (fetches w) ?req
          = Response True s1 (Inr (StatusBody completed))" by auto
      then have st: "fst (fetchStatus e h (useApiKeyFallback l) w) = OkTrue completed"
        by (simp add: fetchStatus_served)
      have "Suc (fetches w) = fetches w0 + 12" by (simp add: i c)
      with ta obtain s2 where tk: "serve_task e (Suc (fetches w)) (detailsRequest h)
          = Response True s2 (Inr d)" by metis
      from re True have "polls_at e h w0 l w" by (simp add: polls_at_def)
      from completed_fetch [OF this st tk] run show ?thesis by simp
    qed
  qed
qed

text \<open>
  C4. A pass whose status check is successful leaves the failure counter at zero,
  whether the pass ends the loop or goes on. So when the first five status checks of a
  resolution fail transiently, the sixth returns \<open>pending\<close>, the next five fail
  transiently, the twelfth returns \<open>completed\<close> and the full fetch gets an ok response,
  the resolution never raises the fetch error: if it ends, it returns the fetched task
  or, when the budget ran out before, fails with the timeout error. It does return the
  fetched task when the twelve checks and eleven sleeps fit into the budget: here, when
  a network call takes at most 5 s, a timer set for at most 5.5 s fires within 20 s,
  and the random numbers are below one.
\<close>

theorem counter_reset:
  "(now w - startTime l < POLLING_TIMEOUT_MS
      \<and> is_success (fst (fetchStatus e h (useApiKeyFallback l) w))
    \<longrightarrow> retryCount (step_locals (iteration e h l w)) = 0)
   \<and> ((\<forall>i req. i < 5 \<or> (5 < i \<and> i < 11)
               \<longrightarrow> transient (serve_status e (fetches w0 + i) req))
        \<and> (\<forall>req. \<exists>s. serve_status e (fetches w0 + 5) req
               = Response True s (Inr (StatusBody pending)))
        \<and> (\<forall>req. \<exists>s. serve_status e (fetches w0 + 11) req
               = Response True s (Inr (StatusBody completed)))
        \<and> (\<forall>req. \<exists>s. serve_task e (fetches w0 + 12) req = Response True s (Inr d))
      \<longrightarrow> (\<forall>r wz. pollUntilCompleted e h w0 = Some (r, wz)
              \<longrightarrow> r = Inr (Task d) \<or> r = Inl (TaskAsyncTimeoutError (id' h)))
          \<and> ((\<forall>n. fetch_ms e n \<le> 5000)
                \<and> (\<forall>k ms. ms \<le> 5500 \<longrightarrow> timer_ms e k ms \<le> 20000)
                \<and> (\<forall>k. random e k < 1)
              \<longrightarrow> map_option fst (pollUntilCompleted e h w0) = Some (Inr (Task d))))"
  using success_resets [of w l e h] scenario_resolves [of e w0 d h]
    scenario_outcomes [of e w0 d h]
  by blast

theorem counter_reset_witness:
  "retryCount (step_locals (iteration env_flaky ex_handle
      \<lparr>startTime = 1000, retryCount = 5, useApiKeyFallback = False, lastError = None\<rparr>
      \<lparr>now = 20000, fetches = 5, randoms = 5, timers = 5, events = []\<rparr>)) = 0
   \<and> map_option fst (pollUntilCompleted env_flaky ex_handle ex_world)
       = Some (Inr (Task (ex_data ''task_1'')))"
proof -
  have a: "retryCount (step_locals (iteration env_flaky ex_handle
      \<lparr>startTime = 1000, retryCount = 5, useApiKeyFallback = False, lastError = None\<rparr>
      \<lparr>now = 20000, fetches = 5, randoms = 5, timers = 5, events = []\<rparr>)) = 0"
    using counter_reset [where e = env_flaky and h = ex_handle
        and l = "\<lparr>startTime = 1000, retryCount = 5, useApiKeyFallback = False, lastError = None\<rparr>"
        and w = "\<lparr>now = 20000, fetches = 5, randoms = 5, timers = 5, events = []\<rparr>"]
    by (simp add: fetchStatus_served env_flaky_def example_defs POLLING_TIMEOUT_MS_def)
  have F: "\<forall>n. fetch_ms env_flaky n \<le> 5000" by (simp add: env_flaky_def scripted_def)
  have T: "\<forall>k ms. ms \<le> 5500 \<longrightarrow> timer_ms env_flaky k ms \<le> 20000"
    by (simp add: env_flaky_def scripted_def)
  have R: "\<forall>k. random env_flaky k < 1" by (simp add: env_flaky_def scripted_def)
  have tr: "\<forall>i req. i < 5 \<or> (5 < i \<and> i < 11)
               \<longrightarrow> transient (serve_status env_flaky (fetches ex_world + i) req)"
    by (auto simp add: env_flaky_def scripted_def ex_world_def)
  have pe: "\<forall>req. \<exists>s. serve_status env_flaky (fetches ex_world + 5) req
               = Response True s (Inr (StatusBody pending))"
    by (simp add: env_flaky_def scripted_def ex_world_def)
  have co: "\<forall>req. \<exists>s. serve_status env_flaky (fetches ex_world + 11) req
               = Response True s (Inr (StatusBody completed))"
    by (simp add: env_flaky_def scripted_def ex_world_def)
  have ta: "\<forall>req. \<exists>s. serve_task env_flaky (fetches ex_world + 12) req
               = Response True s (Inr (ex_data ''task_1''))"
    by (simp add: env_flaky_def scripted_def ex_world_def)
  have b: "map_option fst (pollUntilCompleted env_flaky ex_handle ex_world)
       = Some (Inr (Task (ex_data ''task_1'')))"
    using counter_reset [where e = env_flaky and h = ex_handle and ?w0.0 = ex_world
        and d = "ex_data ''task_1''" and l = suspended_locals and w = ex_world]
      F T R tr pe co ta
    by blast
  from a b show ?thesis by simp
qed

section \<open>C5: requesting the resolution again\<close>

lemma fetchStatus_completionPromise:
  "fetchStatus e (h\<lparr>completionPromise := x\<rparr>) k w = fetchStatus e h k w"
  by (simp add: fetchStatus_def cong: prod.case_cong sum.case_cong if_cong)

lemma fetchTask_completionPromise:
  "fetchTask e (h\<lparr>completionPromise := x\<rparr>) w = fetchTask e h w"
  by (simp add: fetchTask_def cong: prod.case_cong sum.case_cong if_cong)

lemma iteration_completionPromise:
  "iteration e (h\<lparr>completionPromise := x\<rparr>) l w = iteration e h l w"
  by (simp add: iteration_def fetchStatus_completionPromise fetchTask_completionPromise Let_def
        cong: prod.case_cong FetchStatusResult.case_cong sum.case_cong if_cong)

lemma entered_completionPromise:
  "entered (h\<lparr>completionPromise := x\<rparr>) w = entered h w"
  by (simp add: entered_def)

lemma reaches_Done:
  assumes "reaches e h (initial_locals w0) (entered h w0) l w" and "iteration e h l w = Done r l' w'"
  shows "pollUntilCompleted e h w0 = Some (r, w')"
  using reaches_pollLoop [OF assms(1)] pollLoop_Done [OF assms(2)]
  by (simp add: pollUntilCompleted_def)

lemma one_polling_toTask:
  assumes "one_polling e h0 w0 (h, rt, ps)" and "toTask h rt = (p, h', rt')"
  shows "one_polling e h0 w0 (h', rt', ps @ [p])"
proof (cases "completionPromise h")
  case None
  with assms(1) have h: "h = h0\<lparr>completionPromise := None\<rparr>" and ps: "ps = []"
    and rt: "rt = \<lparr>rt_world = w0, polls = []\<rparr>"
    by (simp_all add: one_polling_def)
  from assms(2) None rt have p: "p = 0" and h': "h' = h\<lparr>completionPromise := Some 0\<rparr>"
    and rt': "rt' = \<lparr>rt_world = entered h w0, polls = [Running (initial_locals w0)]\<rparr>"
    by (auto simp add: toTask_def call_pollUntilCompleted_def)
  from h have "entered h w0 = entered h0 w0" by (metis entered_completionPromise)
  with p h' rt' h ps show ?thesis
    by (simp add: one_polling_def reaches.here)
next
  case (Some q)
  with assms(2) have "p = q" "h' = h" "rt' = rt" by (simp_all add: toTask_def)
  with assms(1) Some show ?thesis by (auto simp add: one_polling_def)
qed

lemma one_polling_run_pass:
  assumes "one_polling e h0 w0 (h, rt, ps)"
  shows "one_polling e h0 w0 (h, run_pass e h i rt, ps)"
proof (cases "completionPromise h")
  case None
  with assms show ?thesis by (simp add: one_polling_def run_pass_def)
next
  case (Some q)
  with assms have h: "h = h0\<lparr>completionPromise := Some q\<rparr>" and q: "q = 0" and ps: "ps \<noteq> []" "set ps \<subseteq> {0}"
    by (simp_all add: one_polling_def)
  from assms Some obtain st where st: "polls rt = [st]"
    and run: "case st of
                 Running l \<Rightarrow> reaches e h0 (initial_locals w0) (entered h0 w0) l (rt_world rt)
               | Finished r \<Rightarrow> pollUntilCompleted e h0 w0 = Some (r, rt_world rt)"
    by (auto simp add: one_polling_def)
  have "iteration e (h0\<lparr>completionPromise := Some q\<rparr>) = iteration e h0"
    by (intro ext) (rule iteration_completionPromise)
  with h have it: "iteration e h = iteration e h0" by simp
  show ?thesis
  proof (cases "i = 0")
    case False
    with st have "run_pass e h i rt = rt" by (simp add: run_pass_def)
    with assms show ?thesis by simp
  next
    case True
    show ?thesis
    proof (cases st)
      case (Finished r)
      with st True have "run_pass e h i rt = rt" by (simp add: run_pass_def)
      with assms show ?thesis by simp
    next
      case (Running l)
      with run have r: "reaches e h0 (initial_locals w0) (entered h0 w0) l (rt_world rt)" by simp
      show ?thesis
      proof (cases "iteration e h0 l (rt_world rt)")
        case (Done res l' w')
        from reaches_Done [OF r Done] have "pollUntilCompleted e h0 w0 = Some (res, w')" .
        moreover from Done st True Running it
        have "run_pass e h i rt = rt\<lparr>rt_world := w', polls := [Finished res]\<rparr>"
          by (simp add: run_pass_def)
        ultimately show ?thesis using Some q ps assms by (simp add: one_polling_def)
      next
        case (Continue l' w')
        from reaches_snoc [OF r Continue]
        have "reaches e h0 (initial_locals w0) (entered h0 w0) l' w'" .
        moreover from Continue st True Running it
        have "run_pass e h i rt = rt\<lparr>rt_world := w', polls := [Running l']\<rparr>"
          by (simp add: run_pass_def)
        ultimately show ?thesis using Some q ps assms by (simp add: one_polling_def)
      qed
    qed
  qed
qed

lemma one_polling_run:
  "one_polling e h0 w0 s \<Longrightarrow> one_polling e h0 w0 (run e acts s)"
proof (induction e acts s rule: run.induct)
  case (1 e s)
  then show ?case by simp
next
  case (2 e acts h rt ps)
  obtain p h' rt' where t: "toTask h rt = (p, h', rt')" by (cases "toTask h rt") auto
  from one_polling_toTask [OF "2.prems" t] have "one_polling e h0 w0 (h', rt', ps @ [p])" .
  from "2.IH" [OF t [symmetric] refl this] t show ?case by simp
next
  case (3 e i acts h rt ps)
  from "3.IH" [OF one_polling_run_pass [OF "3.prems"]] show ?case by simp
qed

lemma one_polling_fresh:
  "completionPromise h = None \<Longrightarrow> one_polling e h w0 (h, \<lparr>rt_world = w0, polls = []\<rparr>, [])"
  by (simp add: one_polling_def)

text \<open>
  C5. Requesting the resolution several times on one handle, also while the polling is
  still under way. Take a handle with no promise stored, as the constructor makes it,
  and any sequence of calls of \<^verbatim>\<open>toTask\<close> and passes of polling loops, in any order. Then
  every call returned the same promise, the first one made, so that all callers get the
  one outcome it settles to; the polling routine was called once if \<^verbatim>\<open>toTask\<close> was
  called at all and never otherwise; as long as that promise is pending, the world is
  one that the single resolution reaches on its way; and once it is settled, its outcome
  and the world are those in which the single resolution ends, however many calls
  followed: all requests made are the requests of the first attempt.
\<close>

theorem toTask_single_flight:
  assumes "completionPromise h = None"
    and "run e acts (h, \<lparr>rt_world = w0, polls = []\<rparr>, []) = (h', rt', ps)"
  shows "(\<forall>p \<in> set ps. p = 0 \<and> settled rt' p = settled rt' 0)
       \<and> length (polls rt') = (if ps = [] then 0 else 1)
       \<and> (ps = [] \<longrightarrow> rt_world rt' = w0)
       \<and> (\<forall>l. polls rt' = [Running l] \<longrightarrow>
              reaches e h (initial_locals w0) (entered h w0) l (rt_world rt'))
       \<and> (\<forall>r. settled rt' 0 = Some r \<longrightarrow> pollUntilCompleted e h w0 = Some (r, rt_world rt'))"
proof -
  from one_polling_run [OF one_polling_fresh [OF assms(1)], of e w0 acts] assms(2)
  have inv: "one_polling e h w0 (h', rt', ps)" by simp
  show ?thesis
  proof (cases "completionPromise h'")
    case None
    with inv show ?thesis by (simp add: one_polling_def settled_def)
  next
    case (Some q)
    with inv obtain st where "ps \<noteq> []" "set ps \<subseteq> {0}" "polls rt' = [st]"
      "case st of
         Running l \<Rightarrow> reaches e h (initial_locals w0) (entered h w0) l (rt_world rt')
       | Finished r \<Rightarrow> pollUntilCompleted e h w0 = Some (r, rt_world rt')"
      by (auto simp add: one_polling_def)
    then show ?thesis by (cases st) (auto simp add: settled_def)
  qed
qed


theorem toTask_single_flight_witness:
  "run env_completed [CallToTask, CallToTask] (ex_handle, \<lparr>rt_world = ex_world, polls = []\<rparr>, [])
     = (ex_handle\<lparr>completionPromise := Some 0\<rparr>,
        \<lparr>rt_world = entered ex_handle ex_world, polls = [Running (initial_locals ex_world)]\<rparr>,
        [0, 0])
   \<and> reaches env_completed ex_handle (initial_locals ex_world) (entered ex_handle ex_world)
        (initial_locals ex_world) (entered ex_handle ex_world)
   \<and> run env_completed [CallToTask, CallToTask, RunPass 0, CallToTask]
        (ex_handle, \<lparr>rt_world = ex_world, polls = []\<rparr>, [])
     = (ex_handle\<lparr>completionPromise := Some 0\<rparr>,
        \<lparr>rt_world = after_fetch env_completed (detailsRequest ex_handle)
                      (after_fetch env_completed (statusRequest ex_handle False)
                         (entered ex_handle ex_world)),
           polls = [Finished (Inr (Task (ex_data ''task_1'')))]\<rparr>,
        [0, 0, 0])
   \<and> pollUntilCompleted env_completed ex_handle ex_world
     = Some (Inr (Task (ex_data ''task_1'')),
             after_fetch env_completed (detailsRequest ex_handle)
               (after_fetch env_completed (statusRequest ex_handle False)
                  (entered ex_handle ex_world)))
   \<and> events (after_fetch env_completed (detailsRequest ex_handle)
               (after_fetch env_completed (statusRequest ex_handle False)
                  (entered ex_handle ex_world)))
     = [Fetched (detailsRequest ex_handle), Fetched (statusRequest ex_handle False),
        PollStarted ''task_1'']"
proof -
  have fresh: "completionPromise ex_handle = None"
    by (simp add: ex_handle_def new_TaskAsync_def)
  have r1: "run env_completed [CallToTask, CallToTask]
              (ex_handle, \<lparr>rt_world = ex_world, polls = []\<rparr>, [])
     = (ex_handle\<lparr>completionPromise := Some 0\<rparr>,
        \<lparr>rt_world = entered ex_handle ex_world, polls = [Running (initial_locals ex_world)]\<rparr>,
        [0, 0])"
    by (simp add: toTask_def call_pollUntilCompleted_def fresh)
  have r2: "run env_completed [CallToTask, CallToTask, RunPass 0, CallToTask]
        (ex_handle, \<lparr>rt_world = ex_world, polls = []\<rparr>, [])
     = (ex_handle\<lparr>completionPromise := Some 0\<rparr>,
        \<lparr>rt_world = after_fetch env_completed (detailsRequest ex_handle)
                      (after_fetch env_completed (statusRequest ex_handle False)
                         (entered ex_handle ex_world)),
           polls = [Finished (Inr (Task (ex_data ''task_1'')))]\<rparr>,
        [0, 0, 0])"
    by (simp add: toTask_def call_pollUntilCompleted_def run_pass_def pass_eval example_defs
          env_completed_def)
  have a: "reaches env_completed ex_handle (initial_locals ex_world) (entered ex_handle ex_world)
        (initial_locals ex_world) (entered ex_handle ex_world)"
    using toTask_single_flight [OF fresh r1] by simp
  have b: "pollUntilCompleted env_completed ex_handle ex_world
     = Some (Inr (Task (ex_data ''task_1'')),
             after_fetch env_completed (detailsRequest ex_handle)
               (after_fetch env_completed (statusRequest ex_handle False)
                  (entered ex_handle ex_world)))"
    using toTask_single_flight [OF fresh r2] by (simp add: settled_def)
  have c: "events (after_fetch env_completed (detailsRequest ex_handle)
               (after_fetch env_completed (statusRequest ex_handle False)
                  (entered ex_handle ex_world)))
     = [Fetched (detailsRequest ex_handle), Fetched (statusRequest ex_handle False),
        PollStarted ''task_1'']"
    by (simp add: after_fetch_def example_defs)
  from r1 a r2 b c show ?thesis by blast
qed

section \<open>C6: a failed task\<close>

text \<open>
  C6. Whenever a status check of a resolution returns success with the lifecycle status
  \<open>failed\<close>, the resolution fails with the task-failed error, and the world at its end is
  the world in which that status check returned: one more network call than before the
  check, the status request, and no timer set, so no status check, no full fetch and no
  sleep follow the response.
\<close>

theorem failed_status_fails_at_once:
  assumes "polls_at e h w0 l w"
    and "fst (fetchStatus e h (useApiKeyFallback l) w) = OkTrue failed"
  shows "pollUntilCompleted e h w0 =
           Some (Inl (TaskAsyncTaskFailedError (id' h)),
                 snd (fetchStatus e h (useApiKeyFallback l) w))
         \<and> fetches (snd (fetchStatus e h (useApiKeyFallback l) w)) = Suc (fetches w)
         \<and> timers (snd (fetchStatus e h (useApiKeyFallback l) w)) = timers w
         \<and> events (snd (fetchStatus e h (useApiKeyFallback l) w))
             = Fetched (statusRequest h (useApiKeyFallback l)) # events w"
proof -
  from assms have "iteration e h l w =
      Done (Inl (TaskAsyncTaskFailedError (id' h))) (l\<lparr>retryCount := 0\<rparr>)
        (snd (fetchStatus e h (useApiKeyFallback l) w))"
    by (simp add: iteration_unfold polls_at_def snd_fetchStatus)
  from polls_at_Done [OF assms(1) this] show ?thesis
    by (simp add: snd_fetchStatus after_fetch_def)
qed

theorem failed_status_fails_at_once_witness:
  "pollUntilCompleted env_failed ex_handle ex_world =
     Some (Inl (TaskAsyncTaskFailedError ''task_1''),
           \<lparr>now = 1040, fetches = 1, randoms = 0, timers = 0,
            events = [Fetched \<lparr>url = ''https://api.mynth.io/tasks/task_1/status'',
                               headers = [(''Authorization'', ''Bearer mak_live'')]\<rparr>,
                      PollStarted ''task_1'']\<rparr>)"
  using failed_status_fails_at_once [of env_failed ex_handle ex_world
      "initial_locals ex_world" "entered ex_handle ex_world"]
  by (simp add: polls_at_def reaches.here fetchStatus_served snd_fetchStatus after_fetch_def
      statusRequest_def initial_locals_def entered_def env_failed_def scripted_def ex_handle_def
      new_TaskAsync_def ex_client_def ex_world_def truthy_def POLLING_TIMEOUT_MS_def)

section \<open>C7: the full fetch after a completed status\<close>

text \<open>
  C7. Whenever a status check of a resolution returns \<open>completed\<close> and the full fetch
  that follows gets a response: the resolution returns the fetched record wrapped as the
  task when the response is ok; it fails with the unauthorized error when the response
  is not ok with status 401, 403 or 404; it fails with the task-fetch error made from
  the status for every other response that is not ok. The loop ends there: the world at
  the end is the world after the status request and the details request. The message of
  the task-fetch error shows every status other than zero.
\<close>

theorem full_fetch_outcomes:
  assumes "polls_at e h w0 l w"
    and "fst (fetchStatus e h (useApiKeyFallback l) w) = OkTrue completed"
    and "serve_task e (Suc (fetches w)) (detailsRequest h) = Response k s (Inr d)"
  shows "pollUntilCompleted e h w0 =
           Some (if k then Inr (Task d)
                 else if s = 401 \<or> s = 403 \<or> s = 404
                   then Inl (TaskAsyncUnauthorizedError (id' h))
                 else Inl (TaskAsyncTaskFetchError (id' h) (Some s)),
                 after_fetch e (detailsRequest h)
                   (after_fetch e (statusRequest h (useApiKeyFallback l)) w))
         \<and> (s \<noteq> 0 \<longrightarrow> error_message (TaskAsyncTaskFetchError (id' h) (Some s))
               = ''Failed to fetch task '' @ id' h @ '' (status '' @ String_of s @ '')'')"
  using completed_fetch [OF assms] by simp

theorem full_fetch_outcomes_witness:
  "map_option fst (pollUntilCompleted env_fetch_denied ex_handle ex_world)
     = Some (Inl (TaskAsyncUnauthorizedError ''task_1''))
   \<and> map_option fst (pollUntilCompleted env_fetch_broken ex_handle ex_world)
     = Some (Inl (TaskAsyncTaskFetchError ''task_1'' (Some 500)))
   \<and> error_message (TaskAsyncTaskFetchError ''task_1'' (Some 500))
     = ''Failed to fetch task task_1 (status 500)''
   \<and> map_option fst (pollUntilCompleted env_completed ex_handle ex_world)
     = Some (Inr (Task (ex_data ''task_1'')))"
proof -
  have p: "\<And>e. polls_at e ex_handle ex_world (initial_locals ex_world) (entered ex_handle ex_world)"
    by (rule polls_at_start)
  have a: "map_option fst (pollUntilCompleted env_fetch_denied ex_handle ex_world)
     = Some (Inl (TaskAsyncUnauthorizedError ''task_1''))"
    using full_fetch_outcomes [OF p, of env_fetch_denied False 404 "ex_data ''task_1''"]
    by (simp add: fetchStatus_served env_fetch_denied_def scripted_def ex_handle_def
        new_TaskAsync_def)
  have b: "map_option fst (pollUntilCompleted env_fetch_broken ex_handle ex_world)
     = Some (Inl (TaskAsyncTaskFetchError ''task_1'' (Some 500)))
   \<and> error_message (TaskAsyncTaskFetchError ''task_1'' (Some 500))
     = ''Failed to fetch task task_1 (status 500)''"
    using full_fetch_outcomes [OF p, of env_fetch_broken False 500 "ex_data ''task_1''"]
    by (simp add: fetchStatus_served env_fetch_broken_def scripted_def ex_handle_def
        new_TaskAsync_def String_of_500)
  have c: "map_option fst (pollUntilCompleted env_completed ex_handle ex_world)
     = Some (Inr (Task (ex_data ''task_1'')))"
    using full_fetch_outcomes [OF p, of env_completed True 200 "ex_data ''task_1''"]
    by (simp add: fetchStatus_served env_completed_def scripted_def ex_handle_def
        new_TaskAsync_def)
  from a b c show ?thesis by simp
qed

section \<open>C8: status responses that are neither unauthorized nor transient\<close>

lemma persistent_other_waits:
  assumes "\<forall>n req. \<exists>s body. serve_status e n req = Response False s (Inr body)
             \<and> s \<noteq> 401 \<and> s \<noteq> 403 \<and> s \<noteq> 404 \<and> s < 500"
    and "now w - startTime l < POLLING_TIMEOUT_MS"
  shows "iteration e h l w = waitForNextPoll e l (now w - startTime l)
              (after_fetch e (statusRequest h (useApiKeyFallback l)) w)"
proof -
  from assms(1) obtain s body where
    "serve_status e (fetches w) (statusRequest h (useApiKeyFallback l))
       = Response False s (Inr body)" "s \<noteq> 401" "s \<noteq> 403" "s \<noteq> 404" "s < 500" by blast
  then have "fst (fetchStatus e h (useApiKeyFallback l) w) = OkFalse False False None"
    by (rule other_status_result)
  with assms(2) show ?thesis by (rule other_status_waits)
qed

text \<open>
  C8. A status response that is not ok, with a status other than 401, 403 and 404 and
  below 500, is classified as neither unauthorized nor retryable. A pass whose status
  check has this result goes on to the next pass after one sleep, with its local
  variables as they were, so the failure counter is not incremented and nothing is
  raised. When every status check gets such a response, a resolution that ends ends
  with the timeout error, and it does end, with the timeout error, provided the random
  numbers are not negative and every timer set for a millisecond or more lets the
  clock advance by a millisecond or more.
\<close>

theorem other_status_keeps_polling:
  "(serve_status e (fetches w) (statusRequest h b) = Response False s (Inr body)
      \<and> s \<noteq> 401 \<and> s \<noteq> 403 \<and> s \<noteq> 404 \<and> s < 500
    \<longrightarrow> fst (fetchStatus e h b w) = OkFalse False False None)
   \<and> (now w - startTime l < POLLING_TIMEOUT_MS
        \<and> fst (fetchStatus e h (useApiKeyFallback l) w) = OkFalse False False err
      \<longrightarrow> iteration e h l w =
            Continue l (step_world (iteration e h l w))
          \<and> timers (step_world (iteration e h l w)) = Suc (timers w)
          \<and> fetches (step_world (iteration e h l w)) = Suc (fetches w))
   \<and> ((\<forall>n req. \<exists>s body. serve_status e n req = Response False s (Inr body)
             \<and> s \<noteq> 401 \<and> s \<noteq> 403 \<and> s \<noteq> 404 \<and> s < 500)
        \<and> pollUntilCompleted e h w0 = Some (r, wz)
      \<longrightarrow> r = Inl (TaskAsyncTimeoutError (id' h)))
   \<and> ((\<forall>n req. \<exists>s body. serve_status e n req = Response False s (Inr body)
             \<and> s \<noteq> 401 \<and> s \<noteq> 403 \<and> s \<noteq> 404 \<and> s < 500)
        \<and> (\<forall>k. 0 \<le> random e k)
        \<and> (\<forall>k ms. 1 \<le> ms \<longrightarrow> 1 \<le> timer_ms e k ms)
      \<longrightarrow> map_option fst (pollUntilCompleted e h w0)
            = Some (Inl (TaskAsyncTimeoutError (id' h))))"
proof -
  have a: "fst (fetchStatus e h b w) = OkFalse False False None"
    if "serve_status e (fetches w) (statusRequest h b) = Response False s (Inr body)"
      and "s \<noteq> 401" "s \<noteq> 403" "s \<noteq> 404" "s < 500"
    using that by (rule other_status_result)
  have b: "iteration e h l w = Continue l (step_world (iteration e h l w))
          \<and> timers (step_world (iteration e h l w)) = Suc (timers w)
          \<and> fetches (step_world (iteration e h l w)) = Suc (fetches w)"
    if "now w - startTime l < POLLING_TIMEOUT_MS"
      and "fst (fetchStatus e h (useApiKeyFallback l) w) = OkFalse False False err"
    using other_status_waits [OF that]
    by (simp add: waitForNextPoll_eq sleep_def after_fetch_def)
  have c: "r = Inl (TaskAsyncTimeoutError (id' h))"
    if p: "\<forall>n req. \<exists>s body. serve_status e n req = Response False s (Inr body)
             \<and> s \<noteq> 401 \<and> s \<noteq> 403 \<and> s \<noteq> 404 \<and> s < 500"
      and run: "pollUntilCompleted e h w0 = Some (r, wz)"
  proof -
    from run obtain lz where "pollLoop e h (initial_locals w0) (entered h w0) = Some (r, lz, wz)"
      by (auto simp add: pollUntilCompleted_def)
    from pollLoop_final [OF this] obtain l1 w1 where fin: "iteration e h l1 w1 = Done r lz wz"
      by blast
    show ?thesis
    proof (cases "now w1 - startTime l1 < POLLING_TIMEOUT_MS")
      case True
      from persistent_other_waits [OF p True, of h] fin show ?thesis
        by (simp add: waitForNextPoll_eq)
    next
      case False
      with fin show ?thesis by (simp add: iteration_unfold)
    qed
  qed
  have d0: "\<exists>wz. pollUntilCompleted e h w0 = Some (Inl (TaskAsyncTimeoutError (id' h)), wz)"
    if p: "\<forall>n req. \<exists>s body. serve_status e n req = Response False s (Inr body)
             \<and> s \<noteq> 401 \<and> s \<noteq> 403 \<and> s \<noteq> 404 \<and> s < 500"
      and rnd: "\<forall>k. 0 \<le> random e k"
      and tmr: "\<forall>k ms. 1 \<le> ms \<longrightarrow> 1 \<le> timer_ms e k ms"
  proof (rule pollUntilCompleted_timeout, rule waits_until_timeout [OF rnd tmr])
    fix l :: locals and w :: world
    assume "now w - startTime l < POLLING_TIMEOUT_MS"
    from persistent_other_waits [OF p this, of h]
    show "\<exists>l'. startTime l' = startTime l \<and>
            iteration e h l w = waitForNextPoll e l' (now w - startTime l)
              (after_fetch e (statusRequest h (useApiKeyFallback l)) w)"
      by (intro exI [of _ l]) simp
  qed
  have d: "map_option fst (pollUntilCompleted e h w0) = Some (Inl (TaskAsyncTimeoutError (id' h)))"
    if "\<forall>n req. \<exists>s body. serve_status e n req = Response False s (Inr body)
             \<and> s \<noteq> 401 \<and> s \<noteq> 403 \<and> s \<noteq> 404 \<and> s < 500"
      and "\<forall>k. 0 \<le> random e k"
      and "\<forall>k ms. 1 \<le> ms \<longrightarrow> 1 \<le> timer_ms e k ms"
    using d0 [OF that] by auto
  from a b c d show ?thesis by blast
qed

theorem other_status_keeps_polling_witness:
  "fst (fetchStatus env_bad_request ex_handle False ex_world) = OkFalse False False None
   \<and> iteration env_bad_request ex_handle (initial_locals ex_world) (entered ex_handle ex_world)
      = Continue (initial_locals ex_world)
          \<lparr>now = 3790, fetches = 1, randoms = 1, timers = 1,
           events = [Slept 2750, Fetched (statusRequest ex_handle False), PollStarted ''task_1'']\<rparr>
   \<and> map_option fst (pollUntilCompleted env_bad_request ex_handle ex_world)
      = Some (Inl (TaskAsyncTimeoutError ''task_1''))"
proof -
  have a: "fst (fetchStatus env_bad_request ex_handle False ex_world) = OkFalse False False None"
    using other_status_keeps_polling [where e = env_bad_request and h = ex_handle and b = False
        and w = ex_world and s = 400 and body = "StatusBody pending"]
    by (simp add: env_bad_request_def scripted_def)
  have "step_world (iteration env_bad_request ex_handle (initial_locals ex_world)
                      (entered ex_handle ex_world))
        = \<lparr>now = 3790, fetches = 1, randoms = 1, timers = 1,
           events = [Slept 2750, Fetched (statusRequest ex_handle False), PollStarted ''task_1'']\<rparr>"
    by (simp add: pass_eval env_bad_request_def example_defs)
  then have b: "iteration env_bad_request ex_handle (initial_locals ex_world) (entered ex_handle ex_world)
      = Continue (initial_locals ex_world)
          \<lparr>now = 3790, fetches = 1, randoms = 1, timers = 1,
           events = [Slept 2750, Fetched (statusRequest ex_handle False), PollStarted ''task_1'']\<rparr>"
    using other_status_keeps_polling [where e = env_bad_request and h = ex_handle
        and l = "initial_locals ex_world" and w = "entered ex_handle ex_world" and err = None]
    by (simp add: fetchStatus_served env_bad_request_def example_defs POLLING_TIMEOUT_MS_def)
  have bad: "\<forall>n req. \<exists>s body. serve_status env_bad_request n req = Response False s (Inr body)
             \<and> s \<noteq> 401 \<and> s \<noteq> 403 \<and> s \<noteq> 404 \<and> s < 500"
    by (simp add: env_bad_request_def scripted_def)
  have rnd: "\<forall>k. 0 \<le> random env_bad_request k"
    by (simp add: env_bad_request_def scripted_def)
  have tmr: "\<forall>k ms. 1 \<le> ms \<longrightarrow> 1 \<le> timer_ms env_bad_request k ms"
    by (simp add: env_bad_request_def scripted_def exact_timer_progress)
  have "map_option fst (pollUntilCompleted env_bad_request ex_handle ex_world)
     = Some (Inl (TaskAsyncTimeoutError (id' ex_handle)))"
    using other_status_keeps_polling [where e = env_bad_request and h = ex_handle
        and ?w0.0 = ex_world and l = suspended_locals and w = ex_world and b = False and s = 0
        and body = "StatusBody pending" and err = None
        and r = "Inl (TaskAsyncTimeoutError ''task_1'')" and wz = ex_world]
      bad rnd tmr
    by blast
  then have c: "map_option fst (pollUntilCompleted env_bad_request ex_handle ex_world)
     = Some (Inl (TaskAsyncTimeoutError ''task_1''))"
    by (simp add: example_defs)
  from a b c show ?thesis by simp
qed

section \<open>C9: the record that a resolution returns\<close>

text \<open>
  The id of the returned record is the one the server put into it: here the status
  checks and the full fetch are for the task \<open>task_1\<close>, the server answers the full
  fetch with a record whose id is \<open>test-task-id\<close>, and that record is returned.
\<close>

theorem record_id_not_checked:
  "map_option fst (pollUntilCompleted env_other_record ex_handle ex_world)
     = Some (Inr (Task (ex_data ''test-task-id'')))
   \<and> Task_id (Task (ex_data ''test-task-id'')) = ''test-task-id''
   \<and> id' ex_handle = ''task_1''
   \<and> Task_id (Task (ex_data ''test-task-id'')) \<noteq> id' ex_handle
   \<and> url (statusRequest ex_handle False) = ''https://api.mynth.io/tasks/task_1/status''"
proof -
  have "iteration env_other_record ex_handle (initial_locals ex_world) (entered ex_handle ex_world)
     = Done (Inr (Task (ex_data ''test-task-id''))) (initial_locals ex_world)
        (after_fetch env_other_record (detailsRequest ex_handle)
          (after_fetch env_other_record (statusRequest ex_handle False) (entered ex_handle ex_world)))"
    by (simp add: iteration_unfold fetchStatus_served fetchTask_served finish_completed_def
        env_other_record_def example_defs POLLING_TIMEOUT_MS_def after_fetch_def)
  from pollLoop_Done [OF this] show ?thesis
    by (simp add: pollUntilCompleted_def Task_id_def ex_data_def example_defs)
qed

text \<open>
  What the code has in place of C9 rests on two facts. The first, \<open>completed_fetch\<close>
  above: a pass whose status check returns \<open>completed\<close> and whose full fetch is answered
  ok ends the resolution with the record of that answer. The second: a resolution that
  returns a task has got it in this way.
\<close>

lemma returned_task_was_fetched:
  assumes "pollUntilCompleted e h w0 = Some (Inr t, wz)"
  shows "\<exists>n s1 s2 b new.
           serve_status e n (statusRequest h b) = Response True s1 (Inr (StatusBody completed))
         \<and> serve_task e (Suc n) (detailsRequest h) = Response True s2 (Inr (raw_data t))
         \<and> fetches wz = Suc (Suc n)
         \<and> events wz = Fetched (detailsRequest h) # Fetched (statusRequest h b) # new
                          @ PollStarted (id' h) # events w0
         \<and> (\<forall>ev \<in> set new. poll_event h ev)
         \<and> url (detailsRequest h) = baseUrl (client h) @ ''/tasks/'' @ id' h
         \<and> url (statusRequest h False) = baseUrl (client h) @ ''/tasks/'' @ id' h @ ''/status''
         \<and> url (statusRequest h True) = baseUrl (client h) @ ''/tasks/'' @ id' h @ ''/status''
         \<and> Task_id t = data_id (raw_data t)"
proof -
  from assms obtain lz where "pollLoop e h (initial_locals w0) (entered h w0) = Some (Inr t, lz, wz)"
    by (auto simp add: pollUntilCompleted_def)
  from pollLoop_final [OF this] obtain l1 w1
    where r: "reaches e h (initial_locals w0) (entered h w0) l1 w1"
      and fin: "iteration e h l1 w1 = Done (Inr t) lz wz"
    by blast
  let ?b = "useApiKeyFallback l1"
  let ?w2 = "after_fetch e (statusRequest h ?b) w1"
  from iteration_returns_task [OF fin]
  have st: "fst (fetchStatus e h ?b w1) = OkTrue completed"
    and ft: "fst (fetchTask e h ?w2) = Inr (raw_data t)"
    and wz: "wz = after_fetch e (detailsRequest h) ?w2"
    by simp_all
  from fetchStatus_OkTrue [OF st] obtain s1
    where a: "serve_status e (fetches w1) (statusRequest h ?b)
                = Response True s1 (Inr (StatusBody completed))" by blast
  from fetchTask_Inr [OF ft] obtain s2
    where b: "serve_task e (Suc (fetches w1)) (detailsRequest h)
                = Response True s2 (Inr (raw_data t))"
    by (auto simp add: after_fetch_def)
  from reaches_events [OF r] obtain new
    where ev: "events w1 = new @ PollStarted (id' h) # events w0"
      and pe: "\<forall>ev \<in> set new. poll_event h ev"
    by (auto simp add: entered_def)
  have c: "fetches wz = Suc (Suc (fetches w1))"
    by (simp add: wz after_fetch_def)
  have d: "events wz = Fetched (detailsRequest h) # Fetched (statusRequest h ?b) # new
                          @ PollStarted (id' h) # events w0"
    by (simp add: wz after_fetch_def ev)
  have u: "url (detailsRequest h) = baseUrl (client h) @ ''/tasks/'' @ id' h"
    "url (statusRequest h False) = baseUrl (client h) @ ''/tasks/'' @ id' h @ ''/status''"
    "url (statusRequest h True) = baseUrl (client h) @ ''/tasks/'' @ id' h @ ''/status''"
    by (simp_all add: detailsRequest_def statusRequest_def)
  have i: "Task_id t = data_id (raw_data t)" by (simp add: Task_id_def)
  from a b c d pe u i show ?thesis by blast
qed

text \<open>
  C9, as the code has it. In any resolution, after any status checks, let a pass issue
  a status check that returns \<open>completed\<close>, and let the full fetch that follows be
  answered ok with a record \<open>d\<close>. Then the resolution returns: its result is the task of
  the record \<open>d\<close>, unchanged, right after these two requests, and the id of that task is
  the id field of \<open>d\<close>, whatever the server put there; it is the handle's task id
  exactly when the server's record carries that id. Conversely, a resolution that
  returns a task returns the record of an ok answer to its full fetch, made right after
  a status check that returned \<open>completed\<close>, and all its requests were status requests or
  the details request of the handle. The status requests and the details request carry
  the handle's task id in their URL.
\<close>

theorem resolved_record_is_fetched_record:
  "(polls_at e h w0 l w \<longrightarrow>
    fst (fetchStatus e h (useApiKeyFallback l) w) = OkTrue completed \<longrightarrow>
    serve_task e (Suc (fetches w)) (detailsRequest h) = Response True s (Inr d) \<longrightarrow>
      pollUntilCompleted e h w0
        = Some (Inr (Task d),
                after_fetch e (detailsRequest h)
                  (after_fetch e (statusRequest h (useApiKeyFallback l)) w))
      \<and> raw_data (Task d) = d
      \<and> Task_id (Task d) = data_id d
      \<and> (Task_id (Task d) = id' h \<longleftrightarrow> data_id d = id' h))
   \<and> (pollUntilCompleted e h w0 = Some (Inr t, wz) \<longrightarrow>
        (\<exists>n s1 s2 b new.
           serve_status e n (statusRequest h b) = Response True s1 (Inr (StatusBody completed))
         \<and> serve_task e (Suc n) (detailsRequest h) = Response True s2 (Inr (raw_data t))
         \<and> fetches wz = Suc (Suc n)
         \<and> events wz = Fetched (detailsRequest h) # Fetched (statusRequest h b) # new
                          @ PollStarted (id' h) # events w0
         \<and> (\<forall>ev \<in> set new. poll_event h ev)
         \<and> Task_id t = data_id (raw_data t)))
   \<and> url (detailsRequest h) = baseUrl (client h) @ ''/tasks/'' @ id' h
   \<and> url (statusRequest h False) = baseUrl (client h) @ ''/tasks/'' @ id' h @ ''/status''
   \<and> url (statusRequest h True) = baseUrl (client h) @ ''/tasks/'' @ id' h @ ''/status''"
proof (intro conjI impI)
  assume p: "polls_at e h w0 l w"
    and st: "fst (fetchStatus e h (useApiKeyFallback l) w) = OkTrue completed"
    and ft: "serve_task e (Suc (fetches w)) (detailsRequest h) = Response True s (Inr d)"
  from completed_fetch [OF p st ft]
  show "pollUntilCompleted e h w0
        = Some (Inr (Task d),
                after_fetch e (detailsRequest h)
                  (after_fetch e (statusRequest h (useApiKeyFallback l)) w))"
    by simp
  show "raw_data (Task d) = d" by simp
  show "Task_id (Task d) = data_id d" by (simp add: Task_id_def)
  show "Task_id (Task d) = id' h \<longleftrightarrow> data_id d = id' h" by (simp add: Task_id_def)
next
  assume "pollUntilCompleted e h w0 = Some (Inr t, wz)"
  from returned_task_was_fetched [OF this]
  show "\<exists>n s1 s2 b new.
           serve_status e n (statusRequest h b) = Response True s1 (Inr (StatusBody completed))
         \<and> serve_task e (Suc n) (detailsRequest h) = Response True s2 (Inr (raw_data t))
         \<and> fetches wz = Suc (Suc n)
         \<and> events wz = Fetched (detailsRequest h) # Fetched (statusRequest h b) # new
                          @ PollStarted (id' h) # events w0
         \<and> (\<forall>ev \<in> set new. poll_event h ev)
         \<and> Task_id t = data_id (raw_data t)"
    by blast
next
  show "url (detailsRequest h) = baseUrl (client h) @ ''/tasks/'' @ id' h"
    by (simp add: detailsRequest_def)
  show "url (statusRequest h False) = baseUrl (client h) @ ''/tasks/'' @ id' h @ ''/status''"
    by (simp add: statusRequest_def)
  show "url (statusRequest h True) = baseUrl (client h) @ ''/tasks/'' @ id' h @ ''/status''"
    by (simp add: statusRequest_def)
qed

theorem resolved_record_is_fetched_record_witness:
  "pollUntilCompleted env_completed ex_handle ex_world
     = Some (Inr (Task (ex_data ''task_1'')),
             after_fetch env_completed (detailsRequest ex_handle)
               (after_fetch env_completed (statusRequest ex_handle False)
                  (entered ex_handle ex_world)))
   \<and> Task_id (Task (ex_data ''task_1'')) = ''task_1''
   \<and> id' ex_handle = ''task_1''
   \<and> url (statusRequest ex_handle False) = ''https://api.mynth.io/tasks/task_1/status''
   \<and> url (detailsRequest ex_handle) = ''https://api.mynth.io/tasks/task_1''
   \<and> pollUntilCompleted env_other_record ex_handle ex_world
     = Some (Inr (Task (ex_data ''test-task-id'')),
             after_fetch env_other_record (detailsRequest ex_handle)
               (after_fetch env_other_record (statusRequest ex_handle False)
                  (entered ex_handle ex_world)))
   \<and> Task_id (Task (ex_data ''test-task-id'')) = ''test-task-id''"
proof -
  have p: "\<And>e. polls_at e ex_handle ex_world (initial_locals ex_world) (entered ex_handle ex_world)"
    by (rule polls_at_start)
  have f: "useApiKeyFallback (initial_locals ex_world) = False"
    by (simp add: initial_locals_def)
  have s1: "fst (fetchStatus env_completed ex_handle
                   (useApiKeyFallback (initial_locals ex_world)) (entered ex_handle ex_world))
              = OkTrue completed"
    by (simp add: fetchStatus_served env_completed_def scripted_def)
  have t1: "serve_task env_completed (Suc (fetches (entered ex_handle ex_world)))
              (detailsRequest ex_handle) = Response True 200 (Inr (ex_data ''task_1''))"
    by (simp add: env_completed_def scripted_def)
  have s2: "fst (fetchStatus env_other_record ex_handle
                   (useApiKeyFallback (initial_locals ex_world)) (entered ex_handle ex_world))
              = OkTrue completed"
    by (simp add: fetchStatus_served env_other_record_def scripted_def)
  have t2: "serve_task env_other_record (Suc (fetches (entered ex_handle ex_world)))
              (detailsRequest ex_handle) = Response True 200 (Inr (ex_data ''test-task-id''))"
    by (simp add: env_other_record_def scripted_def)
  have a: "pollUntilCompleted env_completed ex_handle ex_world
     = Some (Inr (Task (ex_data ''task_1'')),
             after_fetch env_completed (detailsRequest ex_handle)
               (after_fetch env_completed (statusRequest ex_handle False)
                  (entered ex_handle ex_world)))
   \<and> Task_id (Task (ex_data ''task_1'')) = ''task_1''
   \<and> url (statusRequest ex_handle False) = ''https://api.mynth.io/tasks/task_1/status''
   \<and> url (detailsRequest ex_handle) = ''https://api.mynth.io/tasks/task_1''"
    using resolved_record_is_fetched_record
      [where e = env_completed and h = ex_handle and ?w0.0 = ex_world
         and l = "initial_locals ex_world" and w = "entered ex_handle ex_world"
         and s = 200 and d = "ex_data ''task_1''"]
      p s1 t1
    by (simp add: f ex_data_def ex_handle_def new_TaskAsync_def ex_client_def)
  have b: "pollUntilCompleted env_other_record ex_handle ex_world
     = Some (Inr (Task (ex_data ''test-task-id'')),
             after_fetch env_other_record (detailsRequest ex_handle)
               (after_fetch env_other_record (statusRequest ex_handle False)
                  (entered ex_handle ex_world)))
   \<and> Task_id (Task (ex_data ''test-task-id'')) = ''test-task-id''"
    using resolved_record_is_fetched_record
      [where e = env_other_record and h = ex_handle and ?w0.0 = ex_world
         and l = "initial_locals ex_world" and w = "entered ex_handle ex_world"
         and s = 200 and d = "ex_data ''test-task-id''"]
      p s2 t2
    by (simp add: f ex_data_def)
  have c: "id' ex_handle = ''task_1''" by (simp add: ex_handle_def new_TaskAsync_def)
  from a b c show ?thesis by simp
qed

section \<open>C10: the credential of the full fetch\<close>

text \<open>
  C10. The full fetch carries the client's API key in its authorization header,
  whatever public access token the handle has and whether or not the fallback was
  engaged. So when a status check made with the public token returns \<open>completed\<close> and the
  full fetch, made with the API key, gets a response that is not ok with status 401, 403
  or 404, the resolution fails with the unauthorized error.
\<close>

theorem full_fetch_uses_api_key:
  "snd (fetchTask e h w) = after_fetch e (detailsRequest h) w
   \<and> headers (detailsRequest h) = [(''Authorization'', ''Bearer '' @ apiKey (client h))]
   \<and> (polls_at e h w0 l w1
        \<and> truthy (publicAccessToken (access h)) \<and> \<not> useApiKeyFallback l
        \<and> serve_status e (fetches w1) (statusRequest h False)
             = Response True s1 (Inr (StatusBody completed))
        \<and> serve_task e (Suc (fetches w1)) (detailsRequest h) = Response False s (Inr d)
        \<and> (s = 401 \<or> s = 403 \<or> s = 404)
      \<longrightarrow> headers (statusRequest h False)
            = [(''Authorization'', ''Bearer '' @ the (publicAccessToken (access h)))]
          \<and> pollUntilCompleted e h w0 =
              Some (Inl (TaskAsyncUnauthorizedError (id' h)),
                    after_fetch e (detailsRequest h) (after_fetch e (statusRequest h False) w1)))"
proof -
  have a: "snd (fetchTask e h w) = after_fetch e (detailsRequest h) w"
    by (rule snd_fetchTask)
  have b: "headers (detailsRequest h) = [(''Authorization'', ''Bearer '' @ apiKey (client h))]"
    by (simp add: detailsRequest_def)
  have c: "headers (statusRequest h False)
            = [(''Authorization'', ''Bearer '' @ the (publicAccessToken (access h)))]
          \<and> pollUntilCompleted e h w0 =
              Some (Inl (TaskAsyncUnauthorizedError (id' h)),
                    after_fetch e (detailsRequest h) (after_fetch e (statusRequest h False) w1))"
    if p: "polls_at e h w0 l w1"
      and t: "truthy (publicAccessToken (access h))" and f: "\<not> useApiKeyFallback l"
      and ss: "serve_status e (fetches w1) (statusRequest h False)
             = Response True s1 (Inr (StatusBody completed))"
      and st: "serve_task e (Suc (fetches w1)) (detailsRequest h) = Response False s (Inr d)"
      and s: "s = 401 \<or> s = 403 \<or> s = 404"
  proof -
    from f ss have "fst (fetchStatus e h (useApiKeyFallback l) w1) = OkTrue completed"
      by (simp add: fetchStatus_served)
    from completed_fetch [OF p this, of False s d] st s f t show ?thesis
      by (auto simp add: statusRequest_def)
  qed
  from a b c show ?thesis by blast
qed

theorem full_fetch_uses_api_key_witness:
  "headers (detailsRequest ex_handle_pat) = [(''Authorization'', ''Bearer mak_live'')]
   \<and> headers (statusRequest ex_handle_pat False) = [(''Authorization'', ''Bearer pat_1'')]
   \<and> map_option fst (pollUntilCompleted env_pat_only ex_handle_pat ex_world)
       = Some (Inl (TaskAsyncUnauthorizedError ''task_1''))"
  using full_fetch_uses_api_key [where e = env_pat_only and h = ex_handle_pat and ?w0.0 = ex_world
      and l = "initial_locals ex_world" and ?w1.0 = "entered ex_handle_pat ex_world"
      and ?s1.0 = 200 and s = 401 and d = "ex_data ''task_1''"]
    polls_at_start [of env_pat_only ex_handle_pat ex_world]
  by (simp add: env_pat_only_def scripted_def ex_handle_pat_def new_TaskAsync_def ex_client_def
      statusRequest_def detailsRequest_def truthy_def initial_locals_def entered_def ex_world_def)

end
